theory Spec2Isabelle
  imports Main "HOL-Library.Word" "HOL-Library.Sublist"
begin

section \<open>JavaScript strings\<close>

text \<open>
  A JavaScript string is a sequence of UTF-16 code units. String literals of the source
  are ASCII, so they are written as HOL string literals and injected with \<open>js\<close>.
\<close>

type_synonym cu = "16 word"
type_synonym jsstring = "cu list"

definition cu :: "char \<Rightarrow> cu" where
  "cu c = of_char c"

definition js :: "string \<Rightarrow> jsstring" where
  "js s = map cu s"

text \<open>
  A character class of a regular expression is a list of inclusive ranges, as between
  the brackets of the source: \<open>[a-z\d\-~]\<close> is the ranges \<open>a-z\<close>, \<open>0-9\<close>, \<open>-\<close>, \<open>~\<close>.
\<close>

type_synonym cls = "(cu \<times> cu) list"

definition in_cls :: "cls \<Rightarrow> cu \<Rightarrow> bool" where
  "in_cls rs c = list_ex (\<lambda>(lo, hi). lo \<le> c \<and> c \<le> hi) rs"

definition one :: "char \<Rightarrow> cu \<times> cu" where
  "one c = (cu c, cu c)"

definition rng :: "char \<Rightarrow> char \<Rightarrow> cu \<times> cu" where
  "rng a b = (cu a, cu b)"

text \<open>
  ECMAScript \<open>WhiteSpace\<close> and \<open>LineTerminator\<close> code points: what \<open>String.prototype.trim\<close>
  removes and what \<open>\s\<close> matches. TAB, LF, VT, FF, CR; SPACE; NBSP; the category Zs;
  LS and PS; the byte order mark.
\<close>

definition WhiteSpace :: cls where
  "WhiteSpace =
     [(0x0009, 0x000D), (0x0020, 0x0020), (0x00A0, 0x00A0), (0x1680, 0x1680),
      (0x2000, 0x200A), (0x2028, 0x2029), (0x202F, 0x202F), (0x205F, 0x205F),
      (0x3000, 0x3000), (0xFEFF, 0xFEFF)]"

definition isSpace :: "cu \<Rightarrow> bool" where
  "isSpace c = in_cls WhiteSpace c"

text \<open>\<open>s.trim()\<close>\<close>

definition trim :: "jsstring \<Rightarrow> jsstring" where
  "trim s = rev (dropWhile isSpace (rev (dropWhile isSpace s)))"

text \<open>\<open>s.startsWith(p)\<close>\<close>

definition startsWith :: "jsstring \<Rightarrow> jsstring \<Rightarrow> bool" where
  "startsWith s p = prefix p s"

text \<open>
  \<open>s.replace(/X+$/g, rep)\<close> for a one-character class \<open>X\<close>: the leftmost match of \<open>X+$\<close>
  starts where the trailing run of \<open>X\<close> starts and takes all of it; after it no further
  match is possible, since \<open>X+\<close> needs a character.
\<close>

definition replaceTrailingRun :: "(cu \<Rightarrow> bool) \<Rightarrow> jsstring \<Rightarrow> jsstring \<Rightarrow> jsstring" where
  "replaceTrailingRun X rep s =
     (let kept = rev (dropWhile X (rev s))
      in if length kept < length s then kept @ rep else s)"

text \<open>
  \<open>s.replace(/X+/g, rep)\<close> for a character class \<open>X\<close>: every maximal run of characters
  of \<open>X\<close> is one match (\<open>+\<close> is greedy), replaced by \<open>rep\<close>.
\<close>

function replaceRuns :: "(cu \<Rightarrow> bool) \<Rightarrow> jsstring \<Rightarrow> jsstring \<Rightarrow> jsstring" where
  "replaceRuns X rep [] = []"
| "replaceRuns X rep (c # cs) =
     (if X c then rep @ replaceRuns X rep (dropWhile X cs)
      else c # replaceRuns X rep cs)"
  by pat_completeness auto
termination
  by (relation "measure (\<lambda>(X, rep, s). length s)")
     (auto simp: length_dropWhile_le less_Suc_eq_le)

text \<open>
  \<open>s.replace(/^lit/, rep)\<close> for a literal \<open>lit\<close>: without the \<open>g\<close> flag, and anchored, at
  most the prefix is replaced.
\<close>

definition replacePrefix :: "jsstring \<Rightarrow> jsstring \<Rightarrow> jsstring \<Rightarrow> jsstring" where
  "replacePrefix lit rep s = (if prefix lit s then rep @ drop (length lit) s else s)"

text \<open>
  \<open>s.indexOf(pat)\<close>: the least position where \<open>pat\<close> occurs in \<open>s\<close>, \<open>None\<close> for -1. The
  search goes up from the position \<open>i\<close>.
\<close>

fun indexFrom :: "nat \<Rightarrow> jsstring \<Rightarrow> jsstring \<Rightarrow> nat option" where
  "indexFrom i pat [] = (if pat = [] then Some i else None)"
| "indexFrom i pat (c # cs) =
     (if prefix pat (c # cs) then Some i else indexFrom (Suc i) pat cs)"

definition indexOf :: "jsstring \<Rightarrow> jsstring \<Rightarrow> nat option" where
  "indexOf s pat = indexFrom 0 pat s"

text \<open>
  \<open>s.replace(pat, () => rep)\<close> for a string \<open>pat\<close>: only the first occurrence of \<open>pat\<close> is
  replaced, and the result of the callback is inserted as it is (no \<open>$\<close> patterns).
\<close>

definition replaceFirst :: "jsstring \<Rightarrow> jsstring \<Rightarrow> jsstring \<Rightarrow> jsstring" where
  "replaceFirst pat rep s =
     (case indexOf s pat of
        None \<Rightarrow> s
      | Some pos \<Rightarrow> take pos s @ rep @ drop (pos + length pat) s)"

text \<open>
  \<open>s.replace(/^lit(?:opt)?/, rep)\<close> for literals \<open>lit\<close> and \<open>opt\<close>: the optional group is
  greedy, so it is taken whenever it is there.
\<close>

definition replacePrefixOpt :: "jsstring \<Rightarrow> jsstring \<Rightarrow> jsstring \<Rightarrow> jsstring \<Rightarrow> jsstring" where
  "replacePrefixOpt lit opt rep s =
     (if prefix (lit @ opt) s then rep @ drop (length (lit @ opt)) s
      else replacePrefix lit rep s)"

text \<open>\<open>s.split(sep)\<close> for a one-character separator; \<open>''.split(sep)\<close> is \<open>['']\<close>.\<close>

function split :: "cu \<Rightarrow> jsstring \<Rightarrow> jsstring list" where
  "split sep s =
     (case dropWhile (\<lambda>c. c \<noteq> sep) s of
        [] \<Rightarrow> [s]
      | _ # rest \<Rightarrow> takeWhile (\<lambda>c. c \<noteq> sep) s # split sep rest)"
  by pat_completeness auto
termination
proof (relation "measure (\<lambda>(sep, s). length s)")
  show "wf (measure (\<lambda>(sep, s). length s))" by simp
next
  fix sep :: cu and s x21 x22
  assume "dropWhile (\<lambda>c. c \<noteq> sep) s = x21 # x22"
  then have "length (x21 # x22) \<le> length s"
    by (metis length_dropWhile_le)
  then show "((sep, x22), (sep, s)) \<in> measure (\<lambda>(sep, s). length s)" by simp
qed

declare split.simps [simp del]

text \<open>\<open>xs[i]\<close> on an array: \<open>undefined\<close> out of range.\<close>

definition at :: "'a list \<Rightarrow> nat \<Rightarrow> 'a option" where
  "at xs i = (if i < length xs then Some (xs ! i) else None)"


section \<open>NameNormalizer: \<open>formatTargetDir\<close>\<close>

text \<open>
  \<^verbatim>\<open>function formatTargetDir(targetDir: string) {
    return targetDir.trim().replace(/\/+$/g, '')
  }\<close>
\<close>

definition formatTargetDir :: "jsstring \<Rightarrow> jsstring" where
  "formatTargetDir targetDir = replaceTrailingRun (\<lambda>c. c = cu CHR ''/'') [] (trim targetDir)"

definition endsWithSpace :: "jsstring \<Rightarrow> bool" where
  "endsWithSpace s = (s \<noteq> [] \<and> isSpace (last s))"


section \<open>Regular expressions: \<open>/^R$/.test(s)\<close>\<close>

text \<open>
  The regular expression of \<open>isValidPackageName\<close> uses character classes, sequence,
  an optional group and \<open>*\<close>; it has no flags and is anchored at both ends, so that
  \<open>test\<close> holds exactly when the whole string is a word of the expression. The matcher
  takes the derivative of the expression by each code unit in turn.
\<close>

datatype rx = Never | Empty | Cls cls | Seq rx rx | Alt rx rx | Star rx

definition Lit :: "char \<Rightarrow> rx" where
  "Lit c = Cls [one c]"

definition Opt :: "rx \<Rightarrow> rx" where
  "Opt r = Alt r Empty"

fun nullable :: "rx \<Rightarrow> bool" where
  "nullable Never = False"
| "nullable Empty = True"
| "nullable (Cls rs) = False"
| "nullable (Seq r q) = (nullable r \<and> nullable q)"
| "nullable (Alt r q) = (nullable r \<or> nullable q)"
| "nullable (Star r) = True"

fun deriv :: "cu \<Rightarrow> rx \<Rightarrow> rx" where
  "deriv c Never = Never"
| "deriv c Empty = Never"
| "deriv c (Cls rs) = (if in_cls rs c then Empty else Never)"
| "deriv c (Seq r q) =
     (if nullable r then Alt (Seq (deriv c r) q) (deriv c q) else Seq (deriv c r) q)"
| "deriv c (Alt r q) = Alt (deriv c r) (deriv c q)"
| "deriv c (Star r) = Seq (deriv c r) (Star r)"

fun testAnchored :: "rx \<Rightarrow> jsstring \<Rightarrow> bool" where
  "testAnchored r [] = nullable r"
| "testAnchored r (c # cs) = testAnchored (deriv c r) cs"

text \<open>The words of an expression, to state what the matcher decides.\<close>

definition conc :: "jsstring set \<Rightarrow> jsstring set \<Rightarrow> jsstring set" where
  "conc A B = {u @ v | u v. u \<in> A \<and> v \<in> B}"

inductive_set star :: "jsstring set \<Rightarrow> jsstring set" for A :: "jsstring set" where
  star_empty: "[] \<in> star A"
| star_more: "u \<in> A \<Longrightarrow> v \<in> star A \<Longrightarrow> u @ v \<in> star A"

fun lang :: "rx \<Rightarrow> jsstring set" where
  "lang Never = {}"
| "lang Empty = {[]}"
| "lang (Cls rs) = {[c] | c. in_cls rs c}"
| "lang (Seq r q) = conc (lang r) (lang q)"
| "lang (Alt r q) = lang r \<union> lang q"
| "lang (Star r) = star (lang r)"


section \<open>NameNormalizer: package names\<close>

text \<open>
  \<^verbatim>\<open>function isValidPackageName(projectName: string) {
    return /^(?:@[a-z\d\-*~][a-z\d\-*._~]*\/)?[a-z\d\-~][a-z\d\-._~]*$/.test(
      projectName,
    )
  }\<close>
\<close>

definition scopeHead :: cls where
  "scopeHead = [rng CHR ''a'' CHR ''z'', rng CHR ''0'' CHR ''9'', one CHR ''-'', one CHR ''*'',
                one CHR ''~'']"

definition scopeTail :: cls where
  "scopeTail = [rng CHR ''a'' CHR ''z'', rng CHR ''0'' CHR ''9'', one CHR ''-'', one CHR ''*'',
                one CHR ''.'', one CHR ''_'', one CHR ''~'']"

definition nameHead :: cls where
  "nameHead = [rng CHR ''a'' CHR ''z'', rng CHR ''0'' CHR ''9'', one CHR ''-'', one CHR ''~'']"

definition nameTail :: cls where
  "nameTail = [rng CHR ''a'' CHR ''z'', rng CHR ''0'' CHR ''9'', one CHR ''-'', one CHR ''.'',
               one CHR ''_'', one CHR ''~'']"

definition packageNameRx :: rx where
  "packageNameRx =
     Seq (Opt (Seq (Lit CHR ''@'') (Seq (Cls scopeHead) (Seq (Star (Cls scopeTail))
            (Lit CHR ''/'')))))
         (Seq (Cls nameHead) (Star (Cls nameTail)))"

definition isValidPackageName :: "jsstring \<Rightarrow> bool" where
  "isValidPackageName projectName = testAnchored packageNameRx projectName"

text \<open>
  \<^verbatim>\<open>function toValidPackageName(projectName: string) {
    return projectName
      .trim()
      .toLowerCase()
      .replace(/\s+/g, '-')
      .replace(/^[._]/, '')
      .replace(/[^a-z\d\-~]+/g, '-')
  }\<close>
  \<open>String.prototype.toLowerCase\<close> follows the Unicode case mapping tables, which are not
  part of the repository: it is the parameter \<open>toLowerCase\<close>. \<open>asciiLower\<close> is what it
  does on strings of ASCII characters.
\<close>

definition replaceLeadingOf :: "cls \<Rightarrow> jsstring \<Rightarrow> jsstring \<Rightarrow> jsstring" where
  "replaceLeadingOf rs rep s =
     (case s of [] \<Rightarrow> [] | c # cs \<Rightarrow> if in_cls rs c then rep @ cs else s)"

definition toValidPackageName :: "(jsstring \<Rightarrow> jsstring) \<Rightarrow> jsstring \<Rightarrow> jsstring" where
  "toValidPackageName toLowerCase projectName =
     replaceRuns (\<lambda>c. \<not> in_cls [rng CHR ''a'' CHR ''z'', rng CHR ''0'' CHR ''9'', one CHR ''-'',
                                  one CHR ''~''] c) (js ''-'')
       (replaceLeadingOf [one CHR ''.'', one CHR ''_''] []
          (replaceRuns isSpace (js ''-'')
             (toLowerCase (trim projectName))))"

definition asciiLower :: "jsstring \<Rightarrow> jsstring" where
  "asciiLower s = map (\<lambda>c. if cu CHR ''A'' \<le> c \<and> c \<le> cu CHR ''Z'' then c + 0x20 else c) s"

text \<open>
  The grammar of package names in words: an optional \<open>@scope/\<close> prefix, then the name;
  a segment starts with a character of \<open>h\<close> and goes on with characters of \<open>t\<close>.
  \<open>specPackageName\<close> is the grammar as the specification words it: scope and name each
  start with a lowercase letter, a digit, a hyphen or \<open>~\<close>, and go on with lowercase
  letters, digits, hyphen, dot, underscore or tilde.
\<close>

definition segment :: "cls \<Rightarrow> cls \<Rightarrow> jsstring \<Rightarrow> bool" where
  "segment h t s = (case s of [] \<Rightarrow> False | c # cs \<Rightarrow> in_cls h c \<and> list_all (in_cls t) cs)"

definition scopedName :: "cls \<Rightarrow> cls \<Rightarrow> jsstring \<Rightarrow> bool" where
  "scopedName shd stl s =
     (segment nameHead nameTail s \<or>
      list_ex (\<lambda>i. s ! 0 = cu CHR ''@'' \<and> s ! i = cu CHR ''/'' \<and>
                   segment shd stl (take (i - 1) (drop 1 s)) \<and>
                   segment nameHead nameTail (drop (Suc i) s))
        [1..<length s])"

definition specPackageName :: "jsstring \<Rightarrow> bool" where
  "specPackageName s = scopedName nameHead nameTail s"


section \<open>PackageManagerResolver and CommandRewriter\<close>

text \<open>What the code can throw.\<close>

datatype js_error = TypeError | SyntaxError | ENOENT | ENOTDIR | EISDIR | EEXIST

text \<open>
  \<^verbatim>\<open>interface PkgInfo {
    name: string
    version: string
  }\<close>
  The interface is erased at run time: \<open>pkgSpecArr[1]\<close> is \<open>undefined\<close> when the token has
  no \<open>/\<close>, so the field is an option.
\<close>

record PkgInfo =
  name :: jsstring
  version :: "jsstring option"

text \<open>
  \<^verbatim>\<open>function pkgFromUserAgent(userAgent: string | undefined): PkgInfo | undefined {
    if (!userAgent) return undefined
    const pkgSpec = userAgent.split(' ')[0]
    const pkgSpecArr = pkgSpec.split('/')
    return {
      name: pkgSpecArr[0],
      version: pkgSpecArr[1],
    }
  }\<close>
  Calling \<open>split\<close> on \<open>undefined\<close>, or reading a field of it, throws a \<open>TypeError\<close>.
\<close>

definition pkgFromUserAgent :: "jsstring option \<Rightarrow> js_error + PkgInfo option" where
  "pkgFromUserAgent userAgent =
     (case userAgent of
        None \<Rightarrow> Inr None
      | Some ua \<Rightarrow>
          if ua = [] then Inr None
          else (case at (split (cu CHR '' '') ua) 0 of
                  None \<Rightarrow> Inl TypeError
                | Some pkgSpec \<Rightarrow>
                    (let pkgSpecArr = split (cu CHR ''/'') pkgSpec
                     in case at pkgSpecArr 0 of
                          None \<Rightarrow> Inl TypeError
                        | Some n \<Rightarrow> Inr (Some \<lparr>name = n, version = at pkgSpecArr 1\<rparr>))))"

text \<open>
  The resolver as the specification words it: nothing for an absent or empty input;
  otherwise the first white-space-delimited token, the part before its first \<open>/\<close> as the
  name and the part after it as the version.
\<close>

definition specPkgFromUserAgent :: "jsstring option \<Rightarrow> PkgInfo option" where
  "specPkgFromUserAgent userAgent =
     (case userAgent of
        None \<Rightarrow> None
      | Some ua \<Rightarrow>
          if ua = [] then None
          else (let token = takeWhile (\<lambda>c. \<not> isSpace c) ua
                in Some \<lparr>name = takeWhile (\<lambda>c. c \<noteq> cu CHR ''/'') token,
                         version = Some (drop 1 (dropWhile (\<lambda>c. c \<noteq> cu CHR ''/'') token))\<rparr>))"

text \<open>
  \<^verbatim>\<open>function getFullCustomCommand(customCommand: string, pkgInfo?: PkgInfo) {
    const pkgManager = pkgInfo ? pkgInfo.name : 'npm'
    const isYarn1 = pkgManager === 'yarn' && pkgInfo?.version.startsWith('1.')

    return (
      customCommand
        .replace(/^npm create (?:-- )?/, () => {
          if (pkgManager === 'bun') {
            return 'bun x create-'
          }
          if (pkgManager === 'pnpm') {
            return 'pnpm create '
          }
          return customCommand.startsWith('npm create -- ')
            ? `${pkgManager} create -- `
            : `${pkgManager} create `
        })
        .replace('@latest', () => (isYarn1 ? '' : '@latest'))
        .replace(/^npm exec/, () => {
          if (pkgManager === 'pnpm') {
            return 'pnpm dlx'
          }
          if (pkgManager === 'yarn' && !isYarn1) {
            return 'yarn dlx'
          }
          if (pkgManager === 'bun') {
            return 'bun x'
          }
          return 'npm exec'
        })
    )
  }\<close>
  \<open>&&\<close> evaluates its right side only when the manager is yarn; there
  \<open>pkgInfo?.version.startsWith\<close> is \<open>undefined\<close> for an absent \<open>pkgInfo\<close> and throws for an
  undefined \<open>version\<close>.
\<close>

definition isYarn1 :: "jsstring \<Rightarrow> PkgInfo option \<Rightarrow> js_error + bool" where
  "isYarn1 pkgManager pkgInfo =
     (if pkgManager = js ''yarn''
      then (case pkgInfo of
              None \<Rightarrow> Inr False
            | Some p \<Rightarrow>
                (case version p of
                   None \<Rightarrow> Inl TypeError
                 | Some v \<Rightarrow> Inr (startsWith v (js ''1.''))))
      else Inr False)"

definition getFullCustomCommand :: "jsstring \<Rightarrow> PkgInfo option \<Rightarrow> js_error + jsstring" where
  "getFullCustomCommand customCommand pkgInfo =
     (let pkgManager = (case pkgInfo of Some p \<Rightarrow> name p | None \<Rightarrow> js ''npm'')
      in case isYarn1 pkgManager pkgInfo of
           Inl e \<Rightarrow> Inl e
         | Inr yarn1 \<Rightarrow>
             Inr (replacePrefix (js ''npm exec'')
                    (if pkgManager = js ''pnpm'' then js ''pnpm dlx''
                     else if pkgManager = js ''yarn'' \<and> \<not> yarn1 then js ''yarn dlx''
                     else if pkgManager = js ''bun'' then js ''bun x''
                     else js ''npm exec'')
                    (replaceFirst (js ''@latest'') (if yarn1 then [] else js ''@latest'')
                       (replacePrefixOpt (js ''npm create '') (js ''-- '')
                          (if pkgManager = js ''bun'' then js ''bun x create-''
                           else if pkgManager = js ''pnpm'' then js ''pnpm create ''
                           else if startsWith customCommand (js ''npm create -- '')
                                then pkgManager @ js '' create -- ''
                                else pkgManager @ js '' create '')
                          customCommand))))"

text \<open>
  The delegate branch of \<open>init\<close>, up to the call of \<open>spawn.sync\<close>: the command and the
  arguments that are spawned.
  \<^verbatim>\<open>const fullCustomCommand = getFullCustomCommand(customCommand, pkgInfo)

    const [command, ...args] = fullCustomCommand.split(' ')
    const replacedArgs = args.map((arg) =>
      arg.replace('TARGET_DIR', () => targetDir),
    )
    const { status } = spawn.sync(command, replacedArgs, {
      stdio: 'inherit',
    })\<close>
\<close>

definition delegate ::
  "jsstring \<Rightarrow> PkgInfo option \<Rightarrow> jsstring \<Rightarrow> js_error + jsstring \<times> jsstring list" where
  "delegate customCommand pkgInfo targetDir =
     (case getFullCustomCommand customCommand pkgInfo of
        Inl e \<Rightarrow> Inl e
      | Inr fullCustomCommand \<Rightarrow>
          (case split (cu CHR '' '') fullCustomCommand of
             [] \<Rightarrow> Inl TypeError
           | command # args \<Rightarrow>
               Inr (command, map (replaceFirst (js ''TARGET_DIR'') targetDir) args)))"




section \<open>The file system\<close>

text \<open>
  A file system is a tree: a file with its bytes, or a directory with its entries in
  the order in which \<open>readdirSync\<close> lists them (new entries go last). A path is the list
  of the components of an absolute, normalised path. Permissions, links and devices are
  not modelled: an operation fails only for the shape of the tree.
\<close>

type_synonym bytes = "8 word list"

datatype node = File bytes | Dir "(jsstring \<times> node) list"

type_synonym path = "jsstring list"

fun lookup :: "node \<Rightarrow> path \<Rightarrow> node option" where
  "lookup n [] = Some n"
| "lookup (File c) (x # p) = None"
| "lookup (Dir es) (x # p) = (case map_of es x of None \<Rightarrow> None | Some n \<Rightarrow> lookup n p)"

fun setEntry :: "jsstring \<Rightarrow> node \<Rightarrow> (jsstring \<times> node) list \<Rightarrow> (jsstring \<times> node) list" where
  "setEntry x n [] = [(x, n)]"
| "setEntry x n (e # es) = (if fst e = x then (x, n) # es else e # setEntry x n es)"

text \<open>\<open>fs.rmSync(p, { recursive: true, force: true })\<close>: no error when nothing is there.\<close>

fun rm :: "node \<Rightarrow> path \<Rightarrow> node" where
  "rm n [] = n"
| "rm (File c) (x # p) = File c"
| "rm (Dir es) [x] = Dir (filter (\<lambda>e. fst e \<noteq> x) es)"
| "rm (Dir es) (x # y # p) =
     Dir (map (\<lambda>e. if fst e = x then (fst e, rm (snd e) (y # p)) else e) es)"

text \<open>\<open>fs.mkdirSync(p, { recursive: true })\<close>: the missing directories of the path are made.\<close>

fun mkdirp :: "node \<Rightarrow> path \<Rightarrow> js_error + node" where
  "mkdirp (File c) [] = Inl EEXIST"
| "mkdirp (File c) (x # p) = Inl ENOTDIR"
| "mkdirp (Dir es) [] = Inr (Dir es)"
| "mkdirp (Dir es) (x # p) =
     (case mkdirp (case map_of es x of None \<Rightarrow> Dir [] | Some n \<Rightarrow> n) p of
        Inl e \<Rightarrow> Inl e
      | Inr n' \<Rightarrow> Inr (Dir (setEntry x n' es)))"

text \<open>
  Writing a file at a path, for \<open>fs.writeFileSync\<close> and the target of \<open>fs.copyFileSync\<close>:
  the directory of the file has to be there, and the path must not be a directory.
\<close>

fun putFile :: "node \<Rightarrow> path \<Rightarrow> bytes \<Rightarrow> js_error + node" where
  "putFile n [] c = Inl EISDIR"
| "putFile (File b) (x # p) c = Inl ENOTDIR"
| "putFile (Dir es) [x] c =
     (case map_of es x of
        Some (Dir sub) \<Rightarrow> Inl EISDIR
      | _ \<Rightarrow> Inr (Dir (setEntry x (File c) es)))"
| "putFile (Dir es) (x # y # p) c =
     (case map_of es x of
        None \<Rightarrow> Inl ENOENT
      | Some n \<Rightarrow>
          (case putFile n (y # p) c of
             Inl e \<Rightarrow> Inl e
           | Inr n' \<Rightarrow> Inr (Dir (setEntry x n' es))))"

text \<open>
  The state of a run: the file system, and the calls that change it or start a
  process, in the order in which they are made (a call is recorded whether or not it
  succeeds).
\<close>

datatype event =
    Rm path
  | Mkdir path
  | CopyFile path path
  | WriteFile path bytes
  | Spawn jsstring "jsstring list"

record world =
  fs :: node
  trace :: "event list"

text \<open>
  What the run takes from Node.js and its host: \<open>path.resolve(p)\<close> and \<open>path.join(cwd, p)\<close>
  as component lists, the directory of a template
  (\<open>path.resolve(fileURLToPath(import.meta.url), '../..', `template-${template}`)\<close>), the
  UTF-8 codec of \<open>readFileSync(_, 'utf-8')\<close> and \<open>writeFileSync\<close>, \<open>JSON.parse\<close> and
  \<open>JSON.stringify(_, null, indent)\<close>.
\<close>

datatype json =
    JNull
  | JBool bool
  | JNumber jsstring
  | JString jsstring
  | JArray "json list"
  | JObject "(jsstring \<times> json) list"

record env =
  resolve :: "jsstring \<Rightarrow> path"
  joinCwd :: "jsstring \<Rightarrow> path"
  templateDirOf :: "jsstring \<Rightarrow> path"
  utf8Decode :: "bytes \<Rightarrow> jsstring"
  utf8Encode :: "jsstring \<Rightarrow> bytes"
  JSON_parse :: "jsstring \<Rightarrow> js_error + json"
  JSON_stringify :: "json \<Rightarrow> nat \<Rightarrow> jsstring"

text \<open>\<open>fs.existsSync(p)\<close> and \<open>fs.readdirSync(p)\<close> for a path string; the empty string names nothing.\<close>

definition existsSync :: "env \<Rightarrow> world \<Rightarrow> jsstring \<Rightarrow> bool" where
  "existsSync E w p = (p \<noteq> [] \<and> lookup (fs w) (resolve E p) \<noteq> None)"

definition readdirAt :: "world \<Rightarrow> path \<Rightarrow> js_error + jsstring list" where
  "readdirAt w p =
     (case lookup (fs w) p of
        None \<Rightarrow> Inl ENOENT
      | Some (File c) \<Rightarrow> Inl ENOTDIR
      | Some (Dir es) \<Rightarrow> Inr (map fst es))"

definition readdirSync :: "env \<Rightarrow> world \<Rightarrow> jsstring \<Rightarrow> js_error + jsstring list" where
  "readdirSync E w p = (if p = [] then Inl ENOENT else readdirAt w (resolve E p))"

definition readFileAt :: "world \<Rightarrow> path \<Rightarrow> js_error + bytes" where
  "readFileAt w p =
     (case lookup (fs w) p of
        None \<Rightarrow> Inl ENOENT
      | Some (Dir es) \<Rightarrow> Inl EISDIR
      | Some (File c) \<Rightarrow> Inr c)"

definition rmSync :: "path \<Rightarrow> world \<Rightarrow> world" where
  "rmSync p w = w\<lparr>fs := rm (fs w) p, trace := trace w @ [Rm p]\<rparr>"

definition mkdirSync :: "path \<Rightarrow> world \<Rightarrow> js_error option \<times> world" where
  "mkdirSync p w =
     (case mkdirp (fs w) p of
        Inl e \<Rightarrow> (Some e, w\<lparr>trace := trace w @ [Mkdir p]\<rparr>)
      | Inr n \<Rightarrow> (None, w\<lparr>fs := n, trace := trace w @ [Mkdir p]\<rparr>))"

definition writeFileSync :: "env \<Rightarrow> path \<Rightarrow> jsstring \<Rightarrow> world \<Rightarrow> js_error option \<times> world" where
  "writeFileSync E p content w =
     (case putFile (fs w) p (utf8Encode E content) of
        Inl e \<Rightarrow> (Some e, w\<lparr>trace := trace w @ [WriteFile p (utf8Encode E content)]\<rparr>)
      | Inr n \<Rightarrow> (None, w\<lparr>fs := n, trace := trace w @ [WriteFile p (utf8Encode E content)]\<rparr>))"

definition copyFileSync :: "path \<Rightarrow> path \<Rightarrow> world \<Rightarrow> js_error option \<times> world" where
  "copyFileSync src dest w =
     (case readFileAt w src of
        Inl e \<Rightarrow> (Some e, w\<lparr>trace := trace w @ [CopyFile src dest]\<rparr>)
      | Inr c \<Rightarrow>
          (case putFile (fs w) dest c of
             Inl e \<Rightarrow> (Some e, w\<lparr>trace := trace w @ [CopyFile src dest]\<rparr>)
           | Inr n \<Rightarrow> (None, w\<lparr>fs := n, trace := trace w @ [CopyFile src dest]\<rparr>)))"


section \<open>DirectoryConflictResolver\<close>

text \<open>
  \<^verbatim>\<open>function isEmpty(path: string) {
    const files = fs.readdirSync(path)
    return files.length === 0 || (files.length === 1 && files[0] === '.git')
  }\<close>
\<close>

definition isEmptyListing :: "jsstring list \<Rightarrow> bool" where
  "isEmptyListing files =
     (length files = 0 \<or> (length files = 1 \<and> at files 0 = Some (js ''.git'')))"

definition isEmpty :: "env \<Rightarrow> world \<Rightarrow> jsstring \<Rightarrow> js_error + bool" where
  "isEmpty E w p =
     (case readdirSync E w p of
        Inl e \<Rightarrow> Inl e
      | Inr files \<Rightarrow> Inr (isEmptyListing files))"

text \<open>
  \<^verbatim>\<open>function emptyDir(dir: string) {
    if (!fs.existsSync(dir)) {
      return
    }
    for (const file of fs.readdirSync(dir)) {
      if (file === '.git') {
        continue
      }
      fs.rmSync(path.resolve(dir, file), { recursive: true, force: true })
    }
  }\<close>
  \<open>file\<close> is the name of an entry, so \<open>path.resolve(dir, file)\<close> is the path of \<open>dir\<close> with
  \<open>file\<close> as one more component.
\<close>

fun emptyLoop :: "path \<Rightarrow> jsstring list \<Rightarrow> world \<Rightarrow> world" where
  "emptyLoop d [] w = w"
| "emptyLoop d (file # files) w =
     (if file = js ''.git'' then emptyLoop d files w
      else emptyLoop d files (rmSync (d @ [file]) w))"

definition emptyDir :: "env \<Rightarrow> jsstring \<Rightarrow> world \<Rightarrow> js_error option \<times> world" where
  "emptyDir E dir w =
     (if \<not> existsSync E w dir then (None, w)
      else case readdirSync E w dir of
             Inl e \<Rightarrow> (Some e, w)
           | Inr files \<Rightarrow> (None, emptyLoop (resolve E dir) files w))"


section \<open>FileMaterializer\<close>

text \<open>
  \<^verbatim>\<open>function copy(src: string, dest: string) {
    const stat = fs.statSync(src)
    if (stat.isDirectory()) {
      copyDir(src, dest)
    } else {
      fs.copyFileSync(src, dest)
    }
  }

  function copyDir(srcDir: string, destDir: string) {
    fs.mkdirSync(destDir, { recursive: true })
    for (const file of fs.readdirSync(srcDir)) {
      const srcFile = path.resolve(srcDir, file)
      const destFile = path.resolve(destDir, file)
      copy(srcFile, destFile)
    }
  }\<close>
  The recursion follows the tree that is being written to, so it need not end (when
  the target lies inside the source, each level makes a deeper one): \<open>copy\<close> takes fuel,
  one unit for each level, and \<open>None\<close> is the run that does not return. A result is the
  error thrown, if any, with the state reached.
\<close>

fun copy :: "nat \<Rightarrow> path \<Rightarrow> path \<Rightarrow> world \<Rightarrow> (js_error option \<times> world) option"
  and copyEach :: "nat \<Rightarrow> path \<Rightarrow> path \<Rightarrow> jsstring list \<Rightarrow> world \<Rightarrow> (js_error option \<times> world) option"
where
  "copy 0 src dest w = None"
| "copy (Suc n) src dest w =
     (case lookup (fs w) src of
        None \<Rightarrow> Some (Some ENOENT, w)
      | Some (File c) \<Rightarrow> Some (copyFileSync src dest w)
      | Some (Dir es) \<Rightarrow>
          (case mkdirSync dest w of
             (Some e, w1) \<Rightarrow> Some (Some e, w1)
           | (None, w1) \<Rightarrow>
               (case readdirAt w1 src of
                  Inl e \<Rightarrow> Some (Some e, w1)
                | Inr files \<Rightarrow> copyEach n src dest files w1)))"
| "copyEach n src dest [] w = Some (None, w)"
| "copyEach n src dest (file # files) w =
     (case copy n (src @ [file]) (dest @ [file]) w of
        None \<Rightarrow> None
      | Some (Some e, w1) \<Rightarrow> Some (Some e, w1)
      | Some (None, w1) \<Rightarrow> copyEach n src dest files w1)"

text \<open>
  \<^verbatim>\<open>const renameFiles: Record<string, string | undefined> = {
    _gitignore: '.gitignore',
    _env: '.env',
  }\<close>
\<close>

definition renameFiles :: "jsstring \<Rightarrow> jsstring option" where
  "renameFiles file =
     (if file = js ''_gitignore'' then Some (js ''.gitignore'')
      else if file = js ''_env'' then Some (js ''.env'')
      else None)"

text \<open>
  \<open>renameFiles\<close> is an object literal, so a lookup of a name it does not have goes on to
  \<open>Object.prototype\<close>: for the names below \<open>renameFiles[file]\<close> is a function or an object,
  not \<open>undefined\<close>, and \<open>path.join\<close> throws a \<open>TypeError\<close> for an argument that is not a
  string.
\<close>

definition objectPrototype :: "jsstring list" where
  "objectPrototype =
     [js ''constructor'', js ''__defineGetter__'', js ''__defineSetter__'', js ''hasOwnProperty'',
      js ''__lookupGetter__'', js ''__lookupSetter__'', js ''isPrototypeOf'',
      js ''propertyIsEnumerable'', js ''toString'', js ''valueOf'', js ''__proto__'',
      js ''toLocaleString'']"

definition targetName :: "jsstring \<Rightarrow> js_error + jsstring" where
  "targetName file =
     (case renameFiles file of
        Some renamed \<Rightarrow> Inr renamed
      | None \<Rightarrow> if file \<in> set objectPrototype then Inl TypeError else Inr file)"

text \<open>
  \<^verbatim>\<open>const write = (file: string, content?: string) => {
      const targetPath = path.join(root, renameFiles[file] ?? file)
      if (content) {
        fs.writeFileSync(targetPath, content)
      } else {
        copy(path.join(templateDir, file), targetPath)
      }
    }\<close>
  An empty \<open>content\<close> is falsy, like an absent one. (\<open>write\<close> is a keyword of Isabelle,
  hence the prime.)
\<close>

definition write' ::
  "env \<Rightarrow> nat \<Rightarrow> path \<Rightarrow> path \<Rightarrow> jsstring \<Rightarrow> jsstring option \<Rightarrow> world \<Rightarrow>
     (js_error option \<times> world) option" where
  "write' E fuel templateDir root file content w =
     (case targetName file of
        Inl e \<Rightarrow> Some (Some e, w)
      | Inr target \<Rightarrow>
          (let targetPath = root @ [target]
           in case content of
                Some c \<Rightarrow>
                  if c \<noteq> [] then Some (writeFileSync E targetPath c w)
                  else copy fuel (templateDir @ [file]) targetPath w
              | None \<Rightarrow> copy fuel (templateDir @ [file]) targetPath w))"

text \<open>
  \<^verbatim>\<open>for (const file of files.filter((f) => f !== 'package.json')) {
      write(file)
    }\<close>
\<close>

fun writeEach ::
  "env \<Rightarrow> nat \<Rightarrow> path \<Rightarrow> path \<Rightarrow> jsstring list \<Rightarrow> world \<Rightarrow> (js_error option \<times> world) option" where
  "writeEach E fuel templateDir root [] w = Some (None, w)"
| "writeEach E fuel templateDir root (file # files) w =
     (case write' E fuel templateDir root file None w of
        None \<Rightarrow> None
      | Some (Some e, w1) \<Rightarrow> Some (Some e, w1)
      | Some (None, w1) \<Rightarrow> writeEach E fuel templateDir root files w1)"

text \<open>
  \<open>pkg.name = packageName\<close> on the value that \<open>JSON.parse\<close> gave. The module is strict
  code: the assignment throws on \<open>null\<close> and on a primitive value. An object keeps the
  place of a property it has and takes a new one last; on an array the property is set
  but is no element, so the value that is serialised afterwards is the same array.
\<close>

fun setProperty :: "jsstring \<Rightarrow> json \<Rightarrow> (jsstring \<times> json) list \<Rightarrow> (jsstring \<times> json) list" where
  "setProperty k v [] = [(k, v)]"
| "setProperty k v (e # es) = (if fst e = k then (k, v) # es else e # setProperty k v es)"

fun setName :: "json \<Rightarrow> jsstring \<Rightarrow> js_error + json" where
  "setName (JObject props) packageName =
     Inr (JObject (setProperty (js ''name'') (JString packageName) props))"
| "setName (JArray xs) packageName = Inr (JArray xs)"
| "setName JNull packageName = Inl TypeError"
| "setName (JBool b) packageName = Inl TypeError"
| "setName (JNumber x) packageName = Inl TypeError"
| "setName (JString x) packageName = Inl TypeError"

text \<open>
  The materialization of \<open>init\<close>:
  \<^verbatim>\<open>const files = fs.readdirSync(templateDir)
    for (const file of files.filter((f) => f !== 'package.json')) {
      write(file)
    }

    const pkg = JSON.parse(
      fs.readFileSync(path.join(templateDir, `package.json`), 'utf-8'),
    )

    pkg.name = packageName

    write('package.json', JSON.stringify(pkg, null, 2) + '\n')\<close>
\<close>

definition materialize ::
  "env \<Rightarrow> nat \<Rightarrow> path \<Rightarrow> path \<Rightarrow> jsstring \<Rightarrow> world \<Rightarrow> (js_error option \<times> world) option" where
  "materialize E fuel templateDir root packageName w =
     (case readdirAt w templateDir of
        Inl e \<Rightarrow> Some (Some e, w)
      | Inr files \<Rightarrow>
          (case writeEach E fuel templateDir root
                  (filter (\<lambda>f. f \<noteq> js ''package.json'') files) w of
             None \<Rightarrow> None
           | Some (Some e, w1) \<Rightarrow> Some (Some e, w1)
           | Some (None, w1) \<Rightarrow>
               (case readFileAt w1 (templateDir @ [js ''package.json'']) of
                  Inl e \<Rightarrow> Some (Some e, w1)
                | Inr raw \<Rightarrow>
                    (case JSON_parse E (utf8Decode E raw) of
                       Inl e \<Rightarrow> Some (Some e, w1)
                     | Inr pkg \<Rightarrow>
                         (case setName pkg packageName of
                            Inl e \<Rightarrow> Some (Some e, w1)
                          | Inr pkg' \<Rightarrow>
                              write' E fuel templateDir root (js ''package.json'')
                                (Some (JSON_stringify E pkg' 2 @ js ''\<newline>'')) w1)))))"


section \<open>TemplateCatalog\<close>

text \<open>
  \<^verbatim>\<open>type Framework = {
    name: string
    display: string
    color: ColorFunc
    variants: FrameworkVariant[]
  }
  type FrameworkVariant = {
    name: string
    display: string
    color: ColorFunc
    customCommand?: string
  }\<close>
  The colour is for the terminal only and is left out. The fields are prefixed, since
  \<open>name\<close> is a field of \<open>PkgInfo\<close> already.
\<close>

record FrameworkVariant =
  vname :: jsstring
  vdisplay :: jsstring
  customCommand :: "jsstring option"

record Framework =
  fname :: jsstring
  fdisplay :: jsstring
  variants :: "FrameworkVariant list"

definition FRAMEWORKS :: "Framework list" where
  "FRAMEWORKS =
     [\<lparr>fname = js ''vue'', fdisplay = js ''Vue'',
        variants = [\<lparr>vname = js ''vue'', vdisplay = js ''JavaScript'', customCommand = None\<rparr>]\<rparr>,
      \<lparr>fname = js ''react'', fdisplay = js ''React'',
        variants = [\<lparr>vname = js ''react-ts'', vdisplay = js ''TypeScript'', customCommand = None\<rparr>]\<rparr>]"

text \<open>
  \<^verbatim>\<open>const TEMPLATES = FRAMEWORKS.map((f) => f.variants.map((v) => v.name)).reduce(
    (a, b) => a.concat(b),
    [],
  )\<close>
\<close>

definition TEMPLATES :: "jsstring list" where
  "TEMPLATES = foldl (\<lambda>a b. a @ b) [] (map (\<lambda>f. map vname (variants f)) FRAMEWORKS)"


section \<open>ScaffoldOrchestrator: \<open>init\<close>\<close>

text \<open>
  What a run of \<open>init\<close> is given: the parsed arguments (\<open>argv._[0]\<close> as \<open>String\<close> renders it,
  \<open>--template\<close>, \<open>--overwrite\<close>, \<open>--help\<close>), \<open>process.env.npm_config_user_agent\<close>, what each
  prompt returns if it is asked (the value, or the cancel signal), and the exit status
  of a spawned generator (\<open>null\<close> when a signal ended it).
\<close>

datatype 'a answer = Cancelled | Answered 'a

datatype overwriteChoice = Yes | No | Ignore

record inputs =
  arg0 :: "jsstring option"
  argTemplate :: "jsstring option"
  argOverwrite :: bool
  argHelp :: bool
  userAgent :: "jsstring option"
  projectNameAnswer :: "jsstring answer"
  overwriteAnswer :: "overwriteChoice answer"
  packageNameAnswer :: "jsstring answer"
  frameworkAnswer :: "Framework answer"
  variantAnswer :: "jsstring answer"
  spawnStatus :: "int option"

text \<open>
  How a run ends: the help text printed, a prompt cancelled (or the answer \<open>no\<close>),
  \<open>process.exit\<close> after a delegate command, the project written, or an exception that
  reaches \<open>init().catch\<close>.
\<close>

datatype outcome = HelpPrinted | OperationCancelled | Exited int | Finished | Uncaught js_error

text \<open>
  \<^verbatim>\<open>let targetDir = argTargetDir
    if (!targetDir) {
      const projectName = await prompts.text({ ... })
      if (prompts.isCancel(projectName)) return cancel()
      targetDir = formatTargetDir(projectName)
    }\<close>
  \<open>None\<close> is the cancelled run. \<open>truthy\<close> keeps a string that is neither \<open>undefined\<close> nor
  empty.
\<close>

definition truthy :: "jsstring option \<Rightarrow> jsstring option" where
  "truthy s = (case s of None \<Rightarrow> None | Some x \<Rightarrow> if x \<noteq> [] then Some x else None)"

definition resolveTargetDir :: "inputs \<Rightarrow> jsstring option" where
  "resolveTargetDir I =
     (let argTargetDir = map_option formatTargetDir (truthy (arg0 I))
      in case truthy argTargetDir of
           Some targetDir \<Rightarrow> Some targetDir
         | None \<Rightarrow>
             (case projectNameAnswer I of
                Cancelled \<Rightarrow> None
              | Answered projectName \<Rightarrow> Some (formatTargetDir projectName)))"

text \<open>
  \<^verbatim>\<open>if (fs.existsSync(targetDir) && !isEmpty(targetDir)) {
      const overwrite = argOverwrite
        ? 'yes'
        : await prompts.select({ ... })
      if (prompts.isCancel(overwrite)) return cancel()
      switch (overwrite) {
        case 'yes':
          emptyDir(targetDir)
          break
        case 'no':
          cancel()
          return
      }
    }\<close>
  The result is the outcome when the run ends here, with the state reached.
\<close>

definition resolveConflict :: "env \<Rightarrow> inputs \<Rightarrow> jsstring \<Rightarrow> world \<Rightarrow> outcome option \<times> world" where
  "resolveConflict E I targetDir w =
     (if existsSync E w targetDir
      then (case isEmpty E w targetDir of
              Inl e \<Rightarrow> (Some (Uncaught e), w)
            | Inr nothing \<Rightarrow>
                if nothing then (None, w)
                else (case (if argOverwrite I then Answered Yes else overwriteAnswer I) of
                        Cancelled \<Rightarrow> (Some OperationCancelled, w)
                      | Answered Yes \<Rightarrow>
                          (case emptyDir E targetDir w of
                             (Some e, w1) \<Rightarrow> (Some (Uncaught e), w1)
                           | (None, w1) \<Rightarrow> (None, w1))
                      | Answered No \<Rightarrow> (Some OperationCancelled, w)
                      | Answered Ignore \<Rightarrow> (None, w)))
      else (None, w))"

text \<open>
  \<^verbatim>\<open>let packageName = path.basename(path.resolve(targetDir))
    if (!isValidPackageName(packageName)) {
      const packageNameResult = await prompts.text({ ... })
      if (prompts.isCancel(packageNameResult)) return cancel()
      packageName = packageNameResult
    }\<close>
\<close>

definition basename :: "path \<Rightarrow> jsstring" where
  "basename p = (case rev p of [] \<Rightarrow> [] | x # xs \<Rightarrow> x)"

definition resolvePackageName :: "env \<Rightarrow> inputs \<Rightarrow> jsstring \<Rightarrow> jsstring option" where
  "resolvePackageName E I targetDir =
     (let packageName = basename (resolve E targetDir)
      in if \<not> isValidPackageName packageName
         then (case packageNameAnswer I of
                 Cancelled \<Rightarrow> None
               | Answered packageNameResult \<Rightarrow> Some packageNameResult)
         else Some packageName)"

text \<open>
  \<^verbatim>\<open>let template = argTemplate
    let hasInvalidArgTemplate = false
    if (argTemplate && !TEMPLATES.includes(argTemplate)) {
      template = undefined
      hasInvalidArgTemplate = true
    }
    if (!template) {
      const framework = await prompts.select({ ... })
      if (prompts.isCancel(framework)) return cancel()

      const variant = await prompts.select({
        message: ...,
        options: framework.variants.map((variant) => {
          const variantColor = variant.color
          const command = variant.customCommand
            ? getFullCustomCommand(variant.customCommand, pkgInfo).replace(
                / TARGET_DIR$/,
                '',
              )
            : undefined
          return { ... }
        }),
      })
      if (prompts.isCancel(variant)) return cancel()

      template = variant
    }\<close>
  The options of the second prompt are computed before it is shown; of that only the
  exception that \<open>getFullCustomCommand\<close> may throw has an effect on the run.
\<close>

fun hintsThrow :: "PkgInfo option \<Rightarrow> FrameworkVariant list \<Rightarrow> js_error option" where
  "hintsThrow pkgInfo [] = None"
| "hintsThrow pkgInfo (v # vs) =
     (case truthy (customCommand v) of
        Some c \<Rightarrow>
          (case getFullCustomCommand c pkgInfo of
             Inl e \<Rightarrow> Some e
           | Inr command \<Rightarrow> hintsThrow pkgInfo vs)
      | None \<Rightarrow> hintsThrow pkgInfo vs)"

definition resolveTemplate :: "inputs \<Rightarrow> PkgInfo option \<Rightarrow> outcome + jsstring" where
  "resolveTemplate I pkgInfo =
     (let template = (case truthy (argTemplate I) of
                        Some t \<Rightarrow> if t \<notin> set TEMPLATES then None else Some t
                      | None \<Rightarrow> argTemplate I)
      in case truthy template of
           Some t \<Rightarrow> Inr t
         | None \<Rightarrow>
             (case frameworkAnswer I of
                Cancelled \<Rightarrow> Inl OperationCancelled
              | Answered framework \<Rightarrow>
                  (case hintsThrow pkgInfo (variants framework) of
                     Some e \<Rightarrow> Inl (Uncaught e)
                   | None \<Rightarrow>
                       (case variantAnswer I of
                          Cancelled \<Rightarrow> Inl OperationCancelled
                        | Answered variant \<Rightarrow> Inr variant))))"

text \<open>
  \<^verbatim>\<open>const root = path.join(cwd, targetDir)
    fs.mkdirSync(root, { recursive: true })

    const pkgManager = pkgInfo ? pkgInfo.name : 'npm'

    const { customCommand } =
      FRAMEWORKS.flatMap((f) => f.variants).find((v) => v.name === template) ?? {}

    if (customCommand) {
      const fullCustomCommand = getFullCustomCommand(customCommand, pkgInfo)
      ...
      const { status } = spawn.sync(command, replacedArgs, {
        stdio: 'inherit',
      })
      process.exit(status ?? 0)
    }\<close>
  and then the materialization and the closing message.
\<close>

definition customCommandOf :: "jsstring \<Rightarrow> jsstring option" where
  "customCommandOf template =
     (case find (\<lambda>v. vname v = template) (concat (map variants FRAMEWORKS)) of
        None \<Rightarrow> None
      | Some v \<Rightarrow> customCommand v)"

definition scaffold ::
  "env \<Rightarrow> nat \<Rightarrow> inputs \<Rightarrow> PkgInfo option \<Rightarrow> jsstring \<Rightarrow> jsstring \<Rightarrow> jsstring \<Rightarrow> world \<Rightarrow>
     (outcome \<times> world) option" where
  "scaffold E fuel I pkgInfo targetDir packageName template w =
     (let root = joinCwd E targetDir
      in case mkdirSync root w of
           (Some e, w1) \<Rightarrow> Some (Uncaught e, w1)
         | (None, w1) \<Rightarrow>
             (case truthy (customCommandOf template) of
                Some c \<Rightarrow>
                  (case delegate c pkgInfo targetDir of
                     Inl e \<Rightarrow> Some (Uncaught e, w1)
                   | Inr (command, replacedArgs) \<Rightarrow>
                       Some (Exited (case spawnStatus I of Some status \<Rightarrow> status | None \<Rightarrow> 0),
                             w1\<lparr>trace := trace w1 @ [Spawn command replacedArgs]\<rparr>))
              | None \<Rightarrow>
                  (case materialize E fuel (templateDirOf E template) root packageName w1 of
                     None \<Rightarrow> None
                   | Some (Some e, w2) \<Rightarrow> Some (Uncaught e, w2)
                   | Some (None, w2) \<Rightarrow> Some (Finished, w2))))"

text \<open>
  \<open>init\<close>, from the arguments to the end of the run; \<open>None\<close> is the run that does not
  return.
  \<^verbatim>\<open>const argTargetDir = argv._[0]
      ? formatTargetDir(String(argv._[0]))
      : undefined
    ...
    const help = argv.help
    if (help) {
      console.log(helpMessage)
      return
    }

    const pkgInfo = pkgFromUserAgent(process.env.npm_config_user_agent)\<close>
\<close>

definition init :: "env \<Rightarrow> nat \<Rightarrow> inputs \<Rightarrow> world \<Rightarrow> (outcome \<times> world) option" where
  "init E fuel I w =
     (if argHelp I then Some (HelpPrinted, w)
      else case pkgFromUserAgent (userAgent I) of
             Inl e \<Rightarrow> Some (Uncaught e, w)
           | Inr pkgInfo \<Rightarrow>
               (case resolveTargetDir I of
                  None \<Rightarrow> Some (OperationCancelled, w)
                | Some targetDir \<Rightarrow>
                    (case resolveConflict E I targetDir w of
                       (Some out, w1) \<Rightarrow> Some (out, w1)
                     | (None, w1) \<Rightarrow>
                         (case resolvePackageName E I targetDir of
                            None \<Rightarrow> Some (OperationCancelled, w1)
                          | Some packageName \<Rightarrow>
                              (case resolveTemplate I pkgInfo of
                                 Inl out \<Rightarrow> Some (out, w1)
                               | Inr template \<Rightarrow>
                                   scaffold E fuel I pkgInfo targetDir packageName template w1)))))"


section \<open>Stating the properties\<close>

text \<open>
  What is left of a directory when only the entries whose name satisfies \<open>P\<close> are
  kept; a file is left as it is.
\<close>

fun keepEntries :: "(jsstring \<Rightarrow> bool) \<Rightarrow> node \<Rightarrow> node" where
  "keepEntries P (File c) = File c"
| "keepEntries P (Dir es) = Dir (filter (\<lambda>e. P (fst e)) es)"

text \<open>
  Kinds of events: a removal; an event of copying the tree at \<open>src\<close> (a directory made,
  or a file copied from below \<open>src\<close>); an event that writes nothing but a copy of a file
  other than the one at \<open>p\<close>, a directory, or a removal.
\<close>

definition isRm :: "event \<Rightarrow> bool" where
  "isRm e = (case e of Rm p \<Rightarrow> True | _ \<Rightarrow> False)"

definition copiesFrom :: "path \<Rightarrow> event \<Rightarrow> bool" where
  "copiesFrom src e = (case e of Mkdir p \<Rightarrow> True | CopyFile s d \<Rightarrow> prefix src s | _ \<Rightarrow> False)"

definition copiesNot :: "path \<Rightarrow> event \<Rightarrow> bool" where
  "copiesNot p e =
     (case e of
        Rm q \<Rightarrow> True
      | Mkdir q \<Rightarrow> True
      | CopyFile s d \<Rightarrow> s \<noteq> p
      | WriteFile q c \<Rightarrow> False
      | Spawn c args \<Rightarrow> False)"


text \<open>\<open>w'\<close> comes from \<open>w\<close> by events that all satisfy \<open>P\<close>.\<close>

definition extends :: "(event \<Rightarrow> bool) \<Rightarrow> world \<Rightarrow> world \<Rightarrow> bool" where
  "extends P w w' = (\<exists>evs. trace w' = trace w @ evs \<and> list_all P evs)"


text \<open>
  For the runs that return: the depth of a tree; two paths of which neither is a prefix
  of the other; a state that differs from another only on paths at, above or below
  \<open>dest\<close>; fuel that covers the tree at \<open>src\<close>.
\<close>

fun depth :: "node \<Rightarrow> nat" where
  "depth (File c) = 0"
| "depth (Dir es) = Suc (fold max (map (\<lambda>e. depth (snd e)) es) 0)"

definition diverge :: "path \<Rightarrow> path \<Rightarrow> bool" where
  "diverge p q = (\<not> prefix p q \<and> \<not> prefix q p)"

definition frame :: "path \<Rightarrow> world \<Rightarrow> world \<Rightarrow> bool" where
  "frame dest w w' = (\<forall>q. diverge dest q \<longrightarrow> lookup (fs w') q = lookup (fs w) q)"

definition enough :: "nat \<Rightarrow> world \<Rightarrow> path \<Rightarrow> bool" where
  "enough n w src = (0 < n \<and> (\<forall>nd. lookup (fs w) src = Some nd \<longrightarrow> depth nd < n))"


section \<open>An example run\<close>

text \<open>
  A small world for the examples: the package with the template \<open>vue\<close> under \<open>/pkg\<close>, the
  working directory \<open>/home\<close> with a directory \<open>my-app\<close> that holds a \<open>.git\<close> and an old
  file; paths are single names relative to \<open>/home\<close>; files are ASCII; \<open>JSON.parse\<close> knows
  the one text of the template's \<open>package.json\<close>, and \<open>JSON.stringify\<close> writes an object of
  atoms, one member on each line.
\<close>

definition demoParse :: "jsstring \<Rightarrow> js_error + json" where
  \<open>demoParse s =
     (if s = js ''{"name":"template-vue","private":true}''
      then Inr (JObject [(js ''name'', JString (js ''template-vue'')), (js ''private'', JBool True)])
      else Inl SyntaxError)\<close>

fun demoAtom :: "json \<Rightarrow> jsstring" where
  \<open>demoAtom JNull = js ''null''\<close>
| \<open>demoAtom (JBool b) = (if b then js ''true'' else js ''false'')\<close>
| \<open>demoAtom (JNumber x) = x\<close>
| \<open>demoAtom (JString x) = js ''"'' @ x @ js ''"''\<close>
| \<open>demoAtom (JArray xs) = js ''[]''\<close>
| \<open>demoAtom (JObject kvs) = js ''{}''\<close>

fun demoMembers :: "nat \<Rightarrow> (jsstring \<times> json) list \<Rightarrow> jsstring" where
  \<open>demoMembers n [] = []\<close>
| \<open>demoMembers n [(k, v)] = replicate n (cu CHR '' '') @ js ''"'' @ k @ js ''": '' @ demoAtom v @ js ''\<newline>''\<close>
| \<open>demoMembers n ((k, v) # kvs) =
     replicate n (cu CHR '' '') @ js ''"'' @ k @ js ''": '' @ demoAtom v @ js '',\<newline>'' @ demoMembers n kvs\<close>

definition demoStringify :: "json \<Rightarrow> nat \<Rightarrow> jsstring" where
  \<open>demoStringify v n =
     (case v of
        JObject kvs \<Rightarrow> if kvs = [] then js ''{}'' else js ''{\<newline>'' @ demoMembers n kvs @ js ''}''
      | _ \<Rightarrow> demoAtom v)\<close>

definition demoEnv :: env where
  "demoEnv =
     \<lparr>resolve = (\<lambda>p. [js ''home'', p]),
      joinCwd = (\<lambda>p. [js ''home'', p]),
      templateDirOf = (\<lambda>t. [js ''pkg'', js ''template-'' @ t]),
      utf8Decode = map ucast,
      utf8Encode = map ucast,
      JSON_parse = demoParse,
      JSON_stringify = demoStringify\<rparr>"

definition bytesOf :: "string \<Rightarrow> bytes" where
  "bytesOf s = map of_char s"

definition demoFs :: node where
  \<open>demoFs =
     Dir [(js ''pkg'',
            Dir [(js ''template-vue'',
                   Dir [(js ''_gitignore'', File (bytesOf ''node_modules'')),
                        (js ''package.json'', File (bytesOf ''{"name":"template-vue","private":true}'')),
                        (js ''src'', Dir [(js ''main.js'', File (bytesOf ''app'')),
                                          (js ''package.json'', File (bytesOf ''{}''))])])]),
          (js ''home'',
            Dir [(js ''my-app'',
                   Dir [(js ''.git'', Dir [(js ''HEAD'', File (bytesOf ''ref''))]),
                        (js ''old.txt'', File (bytesOf ''old''))])])]\<close>

definition demoWorld :: world where
  "demoWorld = \<lparr>fs = demoFs, trace = []\<rparr>"

definition demoInputs :: inputs where
  "demoInputs =
     \<lparr>arg0 = Some (js ''my-app''), argTemplate = Some (js ''vue''), argOverwrite = True,
      argHelp = False, userAgent = Some (js ''npm/10.2.4 node/v20.11.0 linux x64''),
      projectNameAnswer = Cancelled, overwriteAnswer = Cancelled, packageNameAnswer = Cancelled,
      frameworkAnswer = Cancelled, variantAnswer = Cancelled, spawnStatus = None\<rparr>"


definition demoBare :: inputs where
  "demoBare = demoInputs\<lparr>arg0 := Some (js ''fresh'')\<rparr>"


section \<open>Properties of the string operations\<close>

lemma isSpace_space: "isSpace (cu CHR '' '')"
  by (simp add: isSpace_def in_cls_def WhiteSpace_def cu_def)

lemma not_isSpace_slash: "\<not> isSpace (cu CHR ''/'')"
  by (simp add: isSpace_def in_cls_def WhiteSpace_def cu_def)

lemma dropWhile_rev_prefix: "prefix (rev (dropWhile P (rev s))) s"
proof -
  have "rev s = takeWhile P (rev s) @ dropWhile P (rev s)" by simp
  then have "s = rev (dropWhile P (rev s)) @ rev (takeWhile P (rev s))"
    by (metis rev_append rev_rev_ident)
  then show ?thesis by (metis prefixI)
qed

lemma replaceTrailingRun_Nil: "replaceTrailingRun X [] s = rev (dropWhile X (rev s))"
proof -
  let ?k = "rev (dropWhile X (rev s))"
  have "prefix ?k s" by (rule dropWhile_rev_prefix)
  then obtain zs where zs: "s = ?k @ zs" by (auto simp: prefix_def)
  then have "length s = length ?k + length zs" by (metis length_append)
  with zs have "\<not> length ?k < length s \<Longrightarrow> ?k = s"
    by (cases zs) auto
  then show ?thesis
    by (auto simp: replaceTrailingRun_def Let_def)
qed

lemma last_rev_dropWhile: "rev (dropWhile P (rev s)) \<noteq> [] \<Longrightarrow> \<not> P (last (rev (dropWhile P (rev s))))"
  by (metis hd_dropWhile last_rev rev_is_Nil_conv)

lemma rev_dropWhile_id: "s = [] \<or> \<not> P (last s) \<Longrightarrow> rev (dropWhile P (rev s)) = s"
  by (cases s rule: rev_cases) auto

lemma rev_dropWhile_shorter: "s \<noteq> [] \<Longrightarrow> P (last s) \<Longrightarrow> length (rev (dropWhile P (rev s))) < length s"
proof (cases s rule: rev_cases)
  case Nil
  then show "s \<noteq> [] \<Longrightarrow> ?thesis" by simp
next
  case (snoc ys y)
  assume "P (last s)"
  with snoc have "length (rev (dropWhile P (rev s))) = length (dropWhile P (rev ys))" by simp
  also have "\<dots> \<le> length (rev ys)" by (rule length_dropWhile_le)
  finally show ?thesis using snoc by simp
qed

lemma trim_hd: "trim s \<noteq> [] \<Longrightarrow> \<not> isSpace (hd (trim s))"
proof -
  assume ne: "trim s \<noteq> []"
  let ?d = "dropWhile isSpace s"
  have p: "prefix (trim s) ?d" unfolding trim_def by (rule dropWhile_rev_prefix)
  with ne have "?d \<noteq> []" by (auto simp del: dropWhile_eq_Nil_conv)
  then have "\<not> isSpace (hd ?d)" by (rule hd_dropWhile)
  moreover from p ne have "hd (trim s) = hd ?d" by (auto simp: prefix_def)
  ultimately show ?thesis by simp
qed

lemma formatTargetDir_eq: "formatTargetDir s = rev (dropWhile (\<lambda>c. c = cu CHR ''/'') (rev (trim s)))"
  by (simp add: formatTargetDir_def replaceTrailingRun_Nil)

lemma formatTargetDir_hd: "formatTargetDir s \<noteq> [] \<Longrightarrow> \<not> isSpace (hd (formatTargetDir s))"
proof -
  assume ne: "formatTargetDir s \<noteq> []"
  have p: "prefix (formatTargetDir s) (trim s)"
    unfolding formatTargetDir_eq by (rule dropWhile_rev_prefix)
  with ne have "trim s \<noteq> []" by auto
  then have "\<not> isSpace (hd (trim s))" by (rule trim_hd)
  moreover from p ne have "hd (formatTargetDir s) = hd (trim s)" by (auto simp: prefix_def)
  ultimately show ?thesis by simp
qed

lemma formatTargetDir_last: "formatTargetDir s \<noteq> [] \<Longrightarrow> last (formatTargetDir s) \<noteq> cu CHR ''/''"
  unfolding formatTargetDir_eq
  using last_rev_dropWhile [of "\<lambda>c. c = cu CHR ''/''" "trim s"] by simp

lemma trim_no_leading: "s = [] \<or> \<not> isSpace (hd s) \<Longrightarrow> trim s = rev (dropWhile isSpace (rev s))"
  by (cases s) (auto simp: trim_def)



subsection \<open>\<open>formatTargetDir\<close>\<close>

text \<open>
  C1, as the specification states it, fails: after the trim, the trailing run of \<open>/\<close>
  may uncover white space, which a second call trims. \<open>formatTargetDir("a /")\<close> is
  \<open>"a "\<close>, and \<open>formatTargetDir("a ")\<close> is \<open>"a"\<close>.
\<close>

theorem formatTargetDir_not_idempotent:
  "formatTargetDir (formatTargetDir (js ''a /'')) \<noteq> formatTargetDir (js ''a /'')"
  by (simp add: formatTargetDir_def replaceTrailingRun_def trim_def isSpace_def in_cls_def
      WhiteSpace_def js_def cu_def)

text \<open>
  C1, amended: a second \<open>formatTargetDir\<close> changes nothing exactly when the first result
  does not end in a white space character, that is, when no white space stands right
  before the trailing run of \<open>/\<close> of the trimmed input.
\<close>

theorem formatTargetDir_idempotent_iff:
  "formatTargetDir (formatTargetDir s) = formatTargetDir s \<longleftrightarrow>
     \<not> endsWithSpace (formatTargetDir s)"
proof -
  let ?t = "formatTargetDir s"
  have tr: "trim ?t = rev (dropWhile isSpace (rev ?t))"
    using formatTargetDir_hd [of s] by (intro trim_no_leading) blast
  show ?thesis
  proof (cases "endsWithSpace ?t")
    case True
    then have "length (trim ?t) < length ?t"
      unfolding tr endsWithSpace_def by (intro rev_dropWhile_shorter) auto
    moreover have "length (formatTargetDir ?t) \<le> length (trim ?t)"
      using dropWhile_rev_prefix [of "\<lambda>c. c = cu CHR ''/''" "trim ?t"]
      by (simp add: formatTargetDir_eq [of ?t] prefix_length_le del: length_rev)
    ultimately have "formatTargetDir ?t \<noteq> ?t" by auto
    with True show ?thesis by simp
  next
    case False
    then have "trim ?t = ?t"
      unfolding tr endsWithSpace_def by (intro rev_dropWhile_id) auto
    moreover have "rev (dropWhile (\<lambda>c. c = cu CHR ''/'') (rev ?t)) = ?t"
      using formatTargetDir_last [of s] by (intro rev_dropWhile_id) blast
    ultimately have "formatTargetDir ?t = ?t"
      by (simp add: formatTargetDir_eq [of ?t])
    with False show ?thesis by simp
  qed
qed

text \<open>
  C1, amended, at the input \<open>" my-app// "\<close>: the result \<open>"my-app"\<close> does not end in white
  space, and formatting it again gives it back.
\<close>

theorem formatTargetDir_idempotent_iff_witness:
  "\<not> endsWithSpace (formatTargetDir (js '' my-app// '')) \<and>
   formatTargetDir (formatTargetDir (js '' my-app// '')) = formatTargetDir (js '' my-app// '')"
proof -
  have "\<not> endsWithSpace (formatTargetDir (js '' my-app// ''))"
    by (simp add: formatTargetDir_def replaceTrailingRun_def trim_def isSpace_def in_cls_def
        WhiteSpace_def js_def cu_def endsWithSpace_def)
  then show ?thesis
    using formatTargetDir_idempotent_iff [of "js '' my-app// ''"] by simp
qed


subsection \<open>The matcher decides the words of the expression\<close>

lemma in_conc: "w \<in> conc A B \<longleftrightarrow> (\<exists>u v. w = u @ v \<and> u \<in> A \<and> v \<in> B)"
  by (auto simp: conc_def)

lemma conc_assoc: "conc (conc A B) C = conc A (conc B C)"
  by (auto simp: in_conc) (metis append.assoc)+

lemma Nil_in_conc: "[] \<in> conc A B \<longleftrightarrow> [] \<in> A \<and> [] \<in> B"
  by (auto simp: conc_def)

lemma Cons_in_conc:
  "c # w \<in> conc A B \<longleftrightarrow>
     ([] \<in> A \<and> c # w \<in> B) \<or> (\<exists>u v. w = u @ v \<and> c # u \<in> A \<and> v \<in> B)"
  by (auto simp: conc_def Cons_eq_append_conv)

lemma star_Cons_split:
  assumes "x \<in> star A" and "x = c # w"
  shows "\<exists>u v. w = u @ v \<and> c # u \<in> A \<and> v \<in> star A"
  using assms
proof (induction arbitrary: c w rule: star.induct)
  case star_empty
  then show ?case by simp
next
  case (star_more u v)
  show ?case
  proof (cases u)
    case Nil
    with star_more show ?thesis by simp
  next
    case (Cons a u')
    with star_more.prems have "a = c" and "w = u' @ v" by simp_all
    with Cons star_more.hyps show ?thesis by blast
  qed
qed

lemma Cons_in_star:
  "c # w \<in> star A \<longleftrightarrow> (\<exists>u v. w = u @ v \<and> c # u \<in> A \<and> v \<in> star A)"
proof
  assume "c # w \<in> star A"
  then show "\<exists>u v. w = u @ v \<and> c # u \<in> A \<and> v \<in> star A"
    by (rule star_Cons_split) simp
next
  assume "\<exists>u v. w = u @ v \<and> c # u \<in> A \<and> v \<in> star A"
  then obtain u v where "w = u @ v" "c # u \<in> A" "v \<in> star A" by blast
  then show "c # w \<in> star A"
    using star_more [of "c # u" A v] by simp
qed

lemma nullable_iff: "nullable r \<longleftrightarrow> [] \<in> lang r"
  by (induction r) (auto simp: Nil_in_conc intro: star_empty)

lemma lang_deriv: "w \<in> lang (deriv c r) \<longleftrightarrow> c # w \<in> lang r"
proof (induction r arbitrary: w)
  case (Seq r q)
  have "w \<in> lang (deriv c (Seq r q)) \<longleftrightarrow>
          (\<exists>u v. w = u @ v \<and> c # u \<in> lang r \<and> v \<in> lang q) \<or> (nullable r \<and> c # w \<in> lang q)"
    using Seq by (auto simp: in_conc)
  then show ?case
    by (simp add: Cons_in_conc nullable_iff) blast
next
  case (Star r)
  then show ?case
    by (simp add: Cons_in_star in_conc)
qed auto

lemma testAnchored_iff: "testAnchored r s \<longleftrightarrow> s \<in> lang r"
  by (induction s arbitrary: r) (simp_all add: nullable_iff lang_deriv)

lemma star_Cls: "s \<in> star (lang (Cls t)) \<longleftrightarrow> list_all (in_cls t) s"
proof
  assume "s \<in> star (lang (Cls t))"
  then show "list_all (in_cls t) s"
    by (induction rule: star.induct) auto
next
  assume "list_all (in_cls t) s"
  then show "s \<in> star (lang (Cls t))"
  proof (induction s)
    case Nil
    show ?case by (rule star_empty)
  next
    case (Cons c s)
    then have "[c] \<in> lang (Cls t)" and "s \<in> star (lang (Cls t))" by simp_all
    then have "[c] @ s \<in> star (lang (Cls t))" by (rule star_more)
    then show ?case by simp
  qed
qed

lemma lang_segment: "lang (Seq (Cls h) (Star (Cls t))) = {s. segment h t s}"
proof (rule set_eqI)
  fix s
  show "s \<in> lang (Seq (Cls h) (Star (Cls t))) \<longleftrightarrow> s \<in> {s. segment h t s}"
  proof (cases s)
    case Nil
    then show ?thesis by (simp add: segment_def Nil_in_conc)
  next
    case (Cons c w)
    have "c # w \<in> conc (lang (Cls h)) (star (lang (Cls t))) \<longleftrightarrow>
            in_cls h c \<and> w \<in> star (lang (Cls t))"
      by (auto simp: Cons_in_conc)
    with Cons show ?thesis
      by (simp add: segment_def star_Cls del: lang.simps(3))
  qed
qed

lemma lang_Lit: "lang (Lit c) = {[cu c]}"
proof -
  have "in_cls [one c] d \<longleftrightarrow> d = cu c" for d
    by (auto simp: in_cls_def one_def)
  then show ?thesis by (auto simp: Lit_def)
qed

lemma lang_scope:
  "lang (Seq (Lit CHR ''@'') (Seq (Cls h) (Seq (Star (Cls t)) (Lit CHR ''/'')))) =
     {cu CHR ''@'' # scope @ [cu CHR ''/''] | scope. segment h t scope}"
proof -
  have "lang (Seq (Lit CHR ''@'') (Seq (Cls h) (Seq (Star (Cls t)) (Lit CHR ''/'')))) =
          conc (lang (Lit CHR ''@'')) (conc (lang (Seq (Cls h) (Star (Cls t)))) (lang (Lit CHR ''/'')))"
    by (simp add: conc_assoc)
  also have "\<dots> = conc {[cu CHR ''@'']} (conc {s. segment h t s} {[cu CHR ''/'']})"
    unfolding lang_segment lang_Lit ..
  also have "\<dots> = {cu CHR ''@'' # scope @ [cu CHR ''/''] | scope. segment h t scope}"
    by (auto simp: in_conc)
  finally show ?thesis .
qed

lemma lang_packageNameRx:
  "s \<in> lang packageNameRx \<longleftrightarrow>
     segment nameHead nameTail s \<or>
     (\<exists>scope name. s = cu CHR ''@'' # scope @ cu CHR ''/'' # name \<and>
        segment scopeHead scopeTail scope \<and> segment nameHead nameTail name)"
proof -
  let ?S = "Seq (Lit CHR ''@'') (Seq (Cls scopeHead) (Seq (Star (Cls scopeTail)) (Lit CHR ''/'')))"
  let ?N = "Seq (Cls nameHead) (Star (Cls nameTail))"
  have "lang packageNameRx = conc (lang ?S \<union> {[]}) (lang ?N)"
    by (simp add: packageNameRx_def Opt_def)
  then have "s \<in> lang packageNameRx \<longleftrightarrow>
      s \<in> lang ?N \<or> (\<exists>u v. s = u @ v \<and> u \<in> lang ?S \<and> v \<in> lang ?N)"
    by (auto simp: in_conc simp del: lang.simps)
  also have "\<dots> \<longleftrightarrow> segment nameHead nameTail s \<or>
     (\<exists>scope name. s = cu CHR ''@'' # scope @ cu CHR ''/'' # name \<and>
        segment scopeHead scopeTail scope \<and> segment nameHead nameTail name)"
    unfolding lang_scope lang_segment
  proof (intro disj_cong refl iffI)
    assume "\<exists>u v. s = u @ v \<and>
             u \<in> {cu CHR ''@'' # scope @ [cu CHR ''/''] |scope. segment scopeHead scopeTail scope} \<and>
             v \<in> {s. segment nameHead nameTail s}"
    then obtain scope v where "s = (cu CHR ''@'' # scope @ [cu CHR ''/'']) @ v"
      "segment scopeHead scopeTail scope" "segment nameHead nameTail v" by blast
    then show "\<exists>scope name. s = cu CHR ''@'' # scope @ cu CHR ''/'' # name \<and>
        segment scopeHead scopeTail scope \<and> segment nameHead nameTail name" by auto
  next
    assume "\<exists>scope name. s = cu CHR ''@'' # scope @ cu CHR ''/'' # name \<and>
        segment scopeHead scopeTail scope \<and> segment nameHead nameTail name"
    then obtain scope name where "s = (cu CHR ''@'' # scope @ [cu CHR ''/'']) @ name"
      "segment scopeHead scopeTail scope" "segment nameHead nameTail name" by auto
    then show "\<exists>u v. s = u @ v \<and>
             u \<in> {cu CHR ''@'' # scope @ [cu CHR ''/''] |scope. segment scopeHead scopeTail scope} \<and>
             v \<in> {s. segment nameHead nameTail s}" by blast
  qed simp_all
  finally show ?thesis .
qed

lemma index_split:
  "(\<exists>i\<in>set [1..<length s]. s ! 0 = a \<and> s ! i = b \<and> P (take (i - 1) (drop 1 s)) \<and> Q (drop (Suc i) s))
   \<longleftrightarrow> (\<exists>u v. s = a # u @ b # v \<and> P u \<and> Q v)"
  (is "?L \<longleftrightarrow> ?R")
proof
  assume ?L
  then obtain i where i: "1 \<le> i" "i < length s" and a: "s ! 0 = a" and b: "s ! i = b"
    and P: "P (take (i - 1) (drop 1 s))" and Q: "Q (drop (Suc i) s)" by auto
  from i a obtain w where s: "s = a # w" by (cases s) auto
  with i have iw: "i - 1 < length w" by auto
  from s i b have "w ! (i - 1) = b" by (cases i) auto
  with iw have "w = take (i - 1) w @ b # drop (Suc (i - 1)) w"
    by (metis id_take_nth_drop)
  moreover from s i have "drop (Suc i) s = drop (Suc (i - 1)) w" by (cases i) auto
  ultimately have "s = a # take (i - 1) (drop 1 s) @ b # drop (Suc i) s"
    using s by simp
  with P Q show ?R by blast
next
  assume ?R
  then obtain u v where s: "s = a # u @ b # v" and "P u" "Q v" by blast
  have 1: "Suc (length u) \<in> set [1..<length s]" unfolding set_upt using s by simp
  have 2: "s ! 0 = a" using s by simp
  have 3: "s ! Suc (length u) = b" using s by simp
  have 4: "take (Suc (length u) - 1) (drop 1 s) = u" using s by simp
  have 5: "drop (Suc (Suc (length u))) s = v" using s by simp
  from 1 2 3 4 5 \<open>P u\<close> \<open>Q v\<close> show ?L by metis
qed

lemma isValidPackageName_scopedName:
  "isValidPackageName s \<longleftrightarrow> scopedName scopeHead scopeTail s"
  unfolding isValidPackageName_def testAnchored_iff lang_packageNameRx scopedName_def
    list_ex_iff index_split ..


subsection \<open>\<open>isValidPackageName\<close> and \<open>toValidPackageName\<close>\<close>

lemmas cls_defs = in_cls_def one_def rng_def cu_def js_def
  scopeHead_def scopeTail_def nameHead_def nameTail_def

lemmas rx_eval = isValidPackageName_def packageNameRx_def Lit_def Opt_def cls_defs

text \<open>
  C3, as the specification states it, fails: the scope of the regular expression also
  admits \<open>*\<close>, which the grammar in words leaves out. \<open>"@*/a"\<close> is accepted.
\<close>

theorem isValidPackageName_star_scope:
  "isValidPackageName (js ''@*/a'') \<and> \<not> specPackageName (js ''@*/a'')"
  by (simp add: rx_eval specPackageName_def scopedName_def segment_def upt_rec)

text \<open>
  C3, amended: \<open>isValidPackageName\<close> accepts exactly an optional \<open>@scope/\<close> prefix followed
  by a name, where the name starts with a lowercase letter, a digit, a hyphen or \<open>~\<close>
  and goes on with lowercase letters, digits, hyphen, dot, underscore or tilde, and the
  scope is built the same way but may also contain \<open>*\<close> at any position. So
  \<open>"@scope/name-1"\<close> is accepted, \<open>"UPPER"\<close> and \<open>".starts-with-dot"\<close> are not.
\<close>

theorem isValidPackageName_grammar:
  "isValidPackageName s = scopedName scopeHead scopeTail s \<and>
   isValidPackageName (js ''@scope/name-1'') \<and>
   \<not> isValidPackageName (js ''UPPER'') \<and>
   \<not> isValidPackageName (js ''.starts-with-dot'')"
proof -
  have "isValidPackageName (js ''@scope/name-1'')"
    by (simp add: rx_eval)
  moreover have "\<not> isValidPackageName (js ''UPPER'')"
    by (simp add: rx_eval)
  moreover have "\<not> isValidPackageName (js ''.starts-with-dot'')"
    by (simp add: rx_eval)
  ultimately show ?thesis
    using isValidPackageName_scopedName [of s] by simp
qed

lemma replaceRuns_set:
  "c \<in> set (replaceRuns X rep s) \<Longrightarrow> c \<in> set rep \<or> \<not> X c"
  by (induction X rep s rule: replaceRuns.induct) (auto split: if_splits)

lemma nameHead_nameTail: "in_cls nameHead c \<Longrightarrow> in_cls nameTail c"
  by (auto simp: in_cls_def nameHead_def nameTail_def)

lemma segment_name:
  assumes "s \<noteq> []" and "\<forall>c\<in>set s. in_cls nameHead c"
  shows "segment nameHead nameTail s"
  using assms by (cases s) (auto simp: segment_def list_all_iff nameHead_nameTail)

text \<open>
  C4: whatever \<open>toLowerCase\<close> does, a non-empty result of \<open>toValidPackageName\<close> satisfies
  \<open>isValidPackageName\<close>: the last replacement leaves only characters of \<open>[a-z\d\-~]\<close>.
\<close>

theorem toValidPackageName_valid:
  assumes "toValidPackageName toLowerCase s \<noteq> []"
  shows "isValidPackageName (toValidPackageName toLowerCase s)"
proof -
  let ?r = "toValidPackageName toLowerCase s"
  have dash: "in_cls nameHead (cu CHR ''-'')"
    by (simp add: cls_defs)
  have "\<forall>c\<in>set ?r. in_cls nameHead c"
    unfolding toValidPackageName_def
    using replaceRuns_set dash by (fastforce simp: nameHead_def js_def)
  with assms have "segment nameHead nameTail ?r" by (rule segment_name)
  then show ?thesis
    by (simp add: isValidPackageName_scopedName scopedName_def)
qed

text \<open>
  C4 at the input \<open>" My App!"\<close>, lowercased as ASCII: the result is \<open>"my-app-"\<close>, which is
  not empty, and it is a valid package name.
\<close>

theorem toValidPackageName_valid_witness:
  "toValidPackageName asciiLower (js '' My App!'') = js ''my-app-'' \<and>
   toValidPackageName asciiLower (js '' My App!'') \<noteq> [] \<and>
   isValidPackageName (toValidPackageName asciiLower (js '' My App!''))"
proof -
  have r: "toValidPackageName asciiLower (js '' My App!'') = js ''my-app-''"
    by (simp add: toValidPackageName_def asciiLower_def trim_def isSpace_def WhiteSpace_def
        replaceLeadingOf_def cls_defs)
  have ne: "toValidPackageName asciiLower (js '' My App!'') \<noteq> []"
    unfolding r by (simp add: js_def)
  from toValidPackageName_valid [OF ne] r ne show ?thesis by simp
qed


subsection \<open>\<open>split\<close>, \<open>indexOf\<close> and \<open>replace\<close>\<close>

lemma split_unfold:
  "split sep s = takeWhile (\<lambda>c. c \<noteq> sep) s #
     (case dropWhile (\<lambda>c. c \<noteq> sep) s of [] \<Rightarrow> [] | _ # rest \<Rightarrow> split sep rest)"
proof (cases "dropWhile (\<lambda>c. c \<noteq> sep) s")
  case Nil
  then have "takeWhile (\<lambda>c. c \<noteq> sep) s = s"
    by (metis append_Nil2 takeWhile_dropWhile_id)
  with Nil show ?thesis by (subst split.simps) (simp only: list.case)
next
  case (Cons a rest)
  then show ?thesis by (subst split.simps) (simp only: list.case)
qed

lemma at_0_split: "at (split sep s) 0 = Some (takeWhile (\<lambda>c. c \<noteq> sep) s)"
  by (subst split_unfold) (simp add: at_def)

lemma at_1_Cons: "at (x # xs) (Suc 0) = at xs 0"
  by (simp add: at_def)

lemma at_1_split:
  "at (split sep s) (Suc 0) =
     (if sep \<in> set s
      then Some (takeWhile (\<lambda>c. c \<noteq> sep) (drop 1 (dropWhile (\<lambda>c. c \<noteq> sep) s)))
      else None)"
proof (cases "dropWhile (\<lambda>c. c \<noteq> sep) s")
  case Nil
  then have "sep \<notin> set s" by auto
  with Nil show ?thesis
    by (subst split_unfold) (simp only: list.case, simp add: at_def)
next
  case (Cons a rest)
  then have "dropWhile (\<lambda>c. c \<noteq> sep) s \<noteq> []" by simp
  then have "sep \<in> set s" by auto
  moreover have "split sep s = takeWhile (\<lambda>c. c \<noteq> sep) s # split sep rest"
    by (subst split_unfold) (simp only: Cons list.case)
  then have "at (split sep s) (Suc 0) = Some (takeWhile (\<lambda>c. c \<noteq> sep) rest)"
    by (simp add: at_1_Cons at_0_split)
  moreover have "drop 1 (dropWhile (\<lambda>c. c \<noteq> sep) s) = rest"
    by (simp add: Cons)
  ultimately show ?thesis by simp
qed

lemma indexFrom_prefix: "prefix pat s \<Longrightarrow> indexFrom i pat s = Some i"
  by (cases s) auto

lemma indexFrom_first:
  assumes "\<forall>j<length pre. \<not> prefix pat (drop j (pre @ pat @ post))"
  shows "indexFrom i pat (pre @ pat @ post) = Some (i + length pre)"
  using assms
proof (induction pre arbitrary: i)
  case Nil
  show ?case by (simp add: indexFrom_prefix)
next
  case (Cons c pre)
  from Cons.prems [rule_format, of 0] have "\<not> prefix pat (c # pre @ pat @ post)" by simp
  moreover have "\<forall>j<length pre. \<not> prefix pat (drop j (pre @ pat @ post))"
  proof (intro allI impI)
    fix j
    assume "j < length pre"
    then have "Suc j < length (c # pre)" by simp
    from Cons.prems [rule_format, OF this]
    show "\<not> prefix pat (drop j (pre @ pat @ post))" by simp
  qed
  then have "indexFrom (Suc i) pat (pre @ pat @ post) = Some (Suc i + length pre)"
    by (rule Cons.IH)
  ultimately show ?case by simp
qed

lemma indexFrom_none:
  assumes "\<forall>j\<le>length s. \<not> prefix pat (drop j s)"
  shows "indexFrom i pat s = None"
  using assms
proof (induction s arbitrary: i)
  case Nil
  then show ?case by auto
next
  case (Cons c s)
  from Cons.prems [rule_format, of 0] have "\<not> prefix pat (c # s)" by simp
  moreover have "\<forall>j\<le>length s. \<not> prefix pat (drop j s)"
  proof (intro allI impI)
    fix j
    assume "j \<le> length s"
    then have "Suc j \<le> length (c # s)" by simp
    from Cons.prems [rule_format, OF this]
    show "\<not> prefix pat (drop j s)" by simp
  qed
  then have "indexFrom (Suc i) pat s = None" by (rule Cons.IH)
  ultimately show ?case by simp
qed

lemma replaceFirst_first:
  assumes "\<forall>j<length pre. \<not> prefix pat (drop j (pre @ pat @ post))"
  shows "replaceFirst pat rep (pre @ pat @ post) = pre @ rep @ post"
  using indexFrom_first [OF assms, of 0] by (simp add: replaceFirst_def indexOf_def)

lemma replaceFirst_none:
  assumes "\<forall>j\<le>length s. \<not> prefix pat (drop j s)"
  shows "replaceFirst pat rep s = s"
  using indexFrom_none [OF assms, of 0] by (simp add: replaceFirst_def indexOf_def)

lemma pkgFromUserAgent_Some:
  assumes "ua \<noteq> []"
  shows "pkgFromUserAgent (Some ua) =
     Inr (Some \<lparr>name = takeWhile (\<lambda>c. c \<noteq> cu CHR ''/'') (takeWhile (\<lambda>c. c \<noteq> cu CHR '' '') ua),
                 version = at (split (cu CHR ''/'') (takeWhile (\<lambda>c. c \<noteq> cu CHR '' '') ua)) 1\<rparr>)"
  using assms by (simp add: pkgFromUserAgent_def at_0_split Let_def)


lemmas str_eval = js_def cu_def

lemmas cmd_eval = getFullCustomCommand_def isYarn1_def replacePrefix_def replacePrefixOpt_def
  replaceFirst_def indexOf_def startsWith_def str_eval


subsection \<open>CommandRewriter\<close>

text \<open>
  C2: the four scenarios of the rewriting table, and for each the command and the
  arguments that the delegate branch then spawns for a target directory \<open>t\<close>.
\<close>

theorem getFullCustomCommand_table:
  "getFullCustomCommand (js ''npm create vite@latest TARGET_DIR'')
     (Some \<lparr>name = js ''pnpm'', version = Some (js ''8.0.0'')\<rparr>) =
     Inr (js ''pnpm create vite@latest TARGET_DIR'') \<and>
   getFullCustomCommand (js ''npm create vite@latest TARGET_DIR'')
     (Some \<lparr>name = js ''yarn'', version = Some (js ''1.22.0'')\<rparr>) =
     Inr (js ''yarn create vite TARGET_DIR'') \<and>
   getFullCustomCommand (js ''npm exec create-foo'')
     (Some \<lparr>name = js ''bun'', version = Some (js ''1.0.0'')\<rparr>) =
     Inr (js ''bun x create-foo'') \<and>
   getFullCustomCommand (js ''npm create vite@latest TARGET_DIR'') None =
     Inr (js ''npm create vite@latest TARGET_DIR'') \<and>
   delegate (js ''npm create vite@latest TARGET_DIR'')
     (Some \<lparr>name = js ''pnpm'', version = Some (js ''8.0.0'')\<rparr>) t =
     Inr (js ''pnpm'', [js ''create'', js ''vite@latest'', t]) \<and>
   delegate (js ''npm create vite@latest TARGET_DIR'')
     (Some \<lparr>name = js ''yarn'', version = Some (js ''1.22.0'')\<rparr>) t =
     Inr (js ''yarn'', [js ''create'', js ''vite'', t]) \<and>
   delegate (js ''npm exec create-foo'')
     (Some \<lparr>name = js ''bun'', version = Some (js ''1.0.0'')\<rparr>) t =
     Inr (js ''bun'', [js ''x'', js ''create-foo'']) \<and>
   delegate (js ''npm create vite@latest TARGET_DIR'') None t =
     Inr (js ''npm'', [js ''create'', js ''vite@latest'', t])"
proof -
  have 1: "getFullCustomCommand (js ''npm create vite@latest TARGET_DIR'')
     (Some \<lparr>name = js ''pnpm'', version = Some (js ''8.0.0'')\<rparr>) =
     Inr (js ''pnpm create vite@latest TARGET_DIR'')"
    by (simp add: cmd_eval)
  have 2: "getFullCustomCommand (js ''npm create vite@latest TARGET_DIR'')
     (Some \<lparr>name = js ''yarn'', version = Some (js ''1.22.0'')\<rparr>) =
     Inr (js ''yarn create vite TARGET_DIR'')"
    by (simp add: cmd_eval)
  have 3: "getFullCustomCommand (js ''npm exec create-foo'')
     (Some \<lparr>name = js ''bun'', version = Some (js ''1.0.0'')\<rparr>) =
     Inr (js ''bun x create-foo'')"
    by (simp add: cmd_eval)
  have 4: "getFullCustomCommand (js ''npm create vite@latest TARGET_DIR'') None =
     Inr (js ''npm create vite@latest TARGET_DIR'')"
    by (simp add: cmd_eval)
  have 5: "delegate (js ''npm create vite@latest TARGET_DIR'')
     (Some \<lparr>name = js ''pnpm'', version = Some (js ''8.0.0'')\<rparr>) t =
     Inr (js ''pnpm'', [js ''create'', js ''vite@latest'', t])"
    unfolding delegate_def 1 by (simp add: split.simps replaceFirst_def indexOf_def str_eval)
  have 6: "delegate (js ''npm create vite@latest TARGET_DIR'')
     (Some \<lparr>name = js ''yarn'', version = Some (js ''1.22.0'')\<rparr>) t =
     Inr (js ''yarn'', [js ''create'', js ''vite'', t])"
    unfolding delegate_def 2 by (simp add: split.simps replaceFirst_def indexOf_def str_eval)
  have 7: "delegate (js ''npm exec create-foo'')
     (Some \<lparr>name = js ''bun'', version = Some (js ''1.0.0'')\<rparr>) t =
     Inr (js ''bun'', [js ''x'', js ''create-foo''])"
    unfolding delegate_def 3 by (simp add: split.simps replaceFirst_def indexOf_def str_eval)
  have 8: "delegate (js ''npm create vite@latest TARGET_DIR'') None t =
     Inr (js ''npm'', [js ''create'', js ''vite@latest'', t])"
    unfolding delegate_def 4 by (simp add: split.simps replaceFirst_def indexOf_def str_eval)
  from 1 2 3 4 5 6 7 8 show ?thesis by (intro conjI)
qed





subsection \<open>PackageManagerResolver\<close>

text \<open>
  C6, as the specification states it, fails: the token is cut at the first space
  character, not at any white space. For a user agent with a TAB after the first
  \<open>name/version\<close> pair the version read runs up to the next \<open>/\<close>.
\<close>

theorem pkgFromUserAgent_tab:
  "pkgFromUserAgent (Some (js ''npm/10.2.4'' @ [0x0009] @ js ''node/v20.11.0'')) =
     Inr (Some \<lparr>name = js ''npm'', version = Some (js ''10.2.4'' @ [0x0009] @ js ''node'')\<rparr>) \<and>
   specPkgFromUserAgent (Some (js ''npm/10.2.4'' @ [0x0009] @ js ''node/v20.11.0'')) =
     Some \<lparr>name = js ''npm'', version = Some (js ''10.2.4'')\<rparr>"
  by (simp add: pkgFromUserAgent_def specPkgFromUserAgent_def split.simps at_def isSpace_def
      in_cls_def WhiteSpace_def str_eval)

text \<open>
  C6, amended: \<open>pkgFromUserAgent\<close> returns nothing for an absent or empty input, and never
  throws. Otherwise it reads the input up to its first space character (U+0020) only;
  the name is that token up to its first \<open>/\<close>; the version is what stands between the
  first and the second \<open>/\<close> of the token (up to the end of the token when there is no
  second one), and is undefined when the token has no \<open>/\<close>.
\<close>

theorem pkgFromUserAgent_reads:
  "pkgFromUserAgent None = Inr None \<and>
   pkgFromUserAgent (Some []) = Inr None \<and>
   (ua \<noteq> [] \<longrightarrow>
      pkgFromUserAgent (Some ua) =
        Inr (Some
          \<lparr>name = takeWhile (\<lambda>c. c \<noteq> cu CHR ''/'') (takeWhile (\<lambda>c. c \<noteq> cu CHR '' '') ua),
           version =
             (if cu CHR ''/'' \<in> set (takeWhile (\<lambda>c. c \<noteq> cu CHR '' '') ua)
              then Some (takeWhile (\<lambda>c. c \<noteq> cu CHR ''/'')
                     (drop 1 (dropWhile (\<lambda>c. c \<noteq> cu CHR ''/'')
                        (takeWhile (\<lambda>c. c \<noteq> cu CHR '' '') ua))))
              else None)\<rparr>))"
proof (intro conjI impI)
  show "pkgFromUserAgent None = Inr None"
    by (simp add: pkgFromUserAgent_def)
  show "pkgFromUserAgent (Some []) = Inr None"
    by (simp add: pkgFromUserAgent_def)
next
  assume "ua \<noteq> []"
  then show "pkgFromUserAgent (Some ua) =
        Inr (Some
          \<lparr>name = takeWhile (\<lambda>c. c \<noteq> cu CHR ''/'') (takeWhile (\<lambda>c. c \<noteq> cu CHR '' '') ua),
           version =
             (if cu CHR ''/'' \<in> set (takeWhile (\<lambda>c. c \<noteq> cu CHR '' '') ua)
              then Some (takeWhile (\<lambda>c. c \<noteq> cu CHR ''/'')
                     (drop 1 (dropWhile (\<lambda>c. c \<noteq> cu CHR ''/'')
                        (takeWhile (\<lambda>c. c \<noteq> cu CHR '' '') ua))))
              else None)\<rparr>)"
    by (simp add: pkgFromUserAgent_Some at_1_split)
qed

text \<open>
  C6, amended, at the user agent \<open>"pnpm/8.6.0 npm/? node/v18.16.0 linux x64"\<close>: the name
  is \<open>pnpm\<close> and the version \<open>8.6.0\<close>.
\<close>

theorem pkgFromUserAgent_reads_witness:
  "js ''pnpm/8.6.0 npm/? node/v18.16.0 linux x64'' \<noteq> [] \<and>
   pkgFromUserAgent (Some (js ''pnpm/8.6.0 npm/? node/v18.16.0 linux x64'')) =
     Inr (Some \<lparr>name = js ''pnpm'', version = Some (js ''8.6.0'')\<rparr>)"
proof -
  have ne: "js ''pnpm/8.6.0 npm/? node/v18.16.0 linux x64'' \<noteq> []"
    by (simp add: js_def)
  from pkgFromUserAgent_reads [of "js ''pnpm/8.6.0 npm/? node/v18.16.0 linux x64''"] ne
  have "pkgFromUserAgent (Some (js ''pnpm/8.6.0 npm/? node/v18.16.0 linux x64'')) =
        Inr (Some
          \<lparr>name = takeWhile (\<lambda>c. c \<noteq> cu CHR ''/'')
                    (takeWhile (\<lambda>c. c \<noteq> cu CHR '' '') (js ''pnpm/8.6.0 npm/? node/v18.16.0 linux x64'')),
           version =
             (if cu CHR ''/'' \<in> set (takeWhile (\<lambda>c. c \<noteq> cu CHR '' '')
                   (js ''pnpm/8.6.0 npm/? node/v18.16.0 linux x64''))
              then Some (takeWhile (\<lambda>c. c \<noteq> cu CHR ''/'')
                     (drop 1 (dropWhile (\<lambda>c. c \<noteq> cu CHR ''/'')
                        (takeWhile (\<lambda>c. c \<noteq> cu CHR '' '')
                           (js ''pnpm/8.6.0 npm/? node/v18.16.0 linux x64'')))))
              else None)\<rparr>)"
    by blast
  then have "pkgFromUserAgent (Some (js ''pnpm/8.6.0 npm/? node/v18.16.0 linux x64'')) =
     Inr (Some \<lparr>name = js ''pnpm'', version = Some (js ''8.6.0'')\<rparr>)"
    by (simp add: str_eval)
  with ne show ?thesis by simp
qed





subsection \<open>The file system operations\<close>

lemma isEmptyListing_iff: "isEmptyListing files \<longleftrightarrow> files = [] \<or> files = [js ''.git'']"
proof (cases files)
  case Nil
  then show ?thesis by (simp add: isEmptyListing_def)
next
  case (Cons f rest)
  then show ?thesis by (cases rest) (auto simp: isEmptyListing_def at_def)
qed

lemma map_of_map_entry:
  "map_of (map (\<lambda>e. if fst e = x then (fst e, f (snd e)) else e) es) x = map_option f (map_of es x)"
  by (induction es) auto

lemma lookup_rm_child:
  "lookup (rm n (d @ [x])) d = map_option (keepEntries (\<lambda>y. y \<noteq> x)) (lookup n d)"
proof (induction d arbitrary: n)
  case Nil
  show ?case by (cases n) simp_all
next
  case (Cons y d)
  obtain z zs where zs: "d @ [x] = z # zs" by (cases d) auto
  show ?case
  proof (cases n)
    case (File c)
    then show ?thesis by simp
  next
    case (Dir es)
    have "lookup (rm n ((y # d) @ [x])) (y # d) =
            (case map_option (\<lambda>m. rm m (d @ [x])) (map_of es y) of
               None \<Rightarrow> None | Some m \<Rightarrow> lookup m d)"
      using Dir by (simp add: zs map_of_map_entry [of y "\<lambda>m. rm m (z # zs)"])
    also have "\<dots> = map_option (keepEntries (\<lambda>y. y \<noteq> x)) (lookup n (y # d))"
      using Dir Cons.IH by (cases "map_of es y") simp_all
    finally show ?thesis .
  qed
qed

lemma emptyLoop_trace:
  "trace (emptyLoop d files w) =
     trace w @ map (\<lambda>f. Rm (d @ [f])) (filter (\<lambda>f. f \<noteq> js ''.git'') files)"
  by (induction d files w rule: emptyLoop.induct) (simp_all add: rmSync_def)

lemma keepEntries_keepEntries:
  "keepEntries P (keepEntries Q n) = keepEntries (\<lambda>y. Q y \<and> P y) n"
  by (cases n) (simp_all add: conj_commute)

lemma emptyLoop_lookup:
  "lookup (fs (emptyLoop d files w)) d =
     map_option (keepEntries (\<lambda>y. y = js ''.git'' \<or> y \<notin> set files)) (lookup (fs w) d)"
proof (induction d files w rule: emptyLoop.induct)
  case (1 d w)
  have "keepEntries (\<lambda>y. True) n = n" for n by (cases n) simp_all
  then show ?case by (simp add: option.map_ident cong: option.map_cong)
next
  case (2 d f files w)
  show ?case
  proof (cases "f = js ''.git''")
    case True
    with 2 have "lookup (fs (emptyLoop d (f # files) w)) d =
       map_option (keepEntries (\<lambda>y. y = js ''.git'' \<or> y \<notin> set files)) (lookup (fs w) d)"
      by simp
    moreover have "(\<lambda>y. y = js ''.git'' \<or> y \<notin> set files) = (\<lambda>y. y = js ''.git'' \<or> y \<notin> set (f # files))"
      using True by auto
    ultimately show ?thesis by simp
  next
    case False
    with 2 have "lookup (fs (emptyLoop d (f # files) w)) d =
       map_option (keepEntries (\<lambda>y. y = js ''.git'' \<or> y \<notin> set files))
         (lookup (fs (rmSync (d @ [f]) w)) d)"
      by simp
    also have "\<dots> = map_option (keepEntries (\<lambda>y. y = js ''.git'' \<or> y \<notin> set files))
         (map_option (keepEntries (\<lambda>y. y \<noteq> f)) (lookup (fs w) d))"
      by (simp add: rmSync_def lookup_rm_child)
    also have "\<dots> = map_option (keepEntries (\<lambda>y. y \<noteq> f \<and> (y = js ''.git'' \<or> y \<notin> set files)))
         (lookup (fs w) d)"
      by (simp add: option.map_comp comp_def keepEntries_keepEntries)
    also have "(\<lambda>y. y \<noteq> f \<and> (y = js ''.git'' \<or> y \<notin> set files)) =
        (\<lambda>y. y = js ''.git'' \<or> y \<notin> set (f # files))"
      using False by auto
    finally show ?thesis .
  qed
qed

lemma emptyDir_absent: "\<not> existsSync E w dir \<Longrightarrow> emptyDir E dir w = (None, w)"
  by (simp add: emptyDir_def)

lemma emptyDir_Dir:
  assumes "dir \<noteq> []" and "lookup (fs w) (resolve E dir) = Some (Dir es)"
  shows "emptyDir E dir w = (None, emptyLoop (resolve E dir) (map fst es) w)"
    and "lookup (fs (emptyLoop (resolve E dir) (map fst es) w)) (resolve E dir) =
           Some (Dir (filter (\<lambda>e. fst e = js ''.git'') es))"
proof -
  show "emptyDir E dir w = (None, emptyLoop (resolve E dir) (map fst es) w)"
    using assms by (simp add: emptyDir_def existsSync_def readdirSync_def readdirAt_def)
  have "filter (\<lambda>e. fst e = js ''.git'' \<or> fst e \<notin> fst ` set es) es =
        filter (\<lambda>e. fst e = js ''.git'') es"
    by (rule filter_cong) auto
  then show "lookup (fs (emptyLoop (resolve E dir) (map fst es) w)) (resolve E dir) =
           Some (Dir (filter (\<lambda>e. fst e = js ''.git'') es))"
    using assms by (simp add: emptyLoop_lookup)
qed

subsection \<open>The events of a copy\<close>

lemma extends_refl: "extends P w w"
  by (simp add: extends_def)

lemma extends_trans: "extends P w w1 \<Longrightarrow> extends P w1 w2 \<Longrightarrow> extends P w w2"
  by (auto simp: extends_def)

lemma extends_mono: "extends P w w' \<Longrightarrow> (\<And>e. P e \<Longrightarrow> Q e) \<Longrightarrow> extends Q w w'"
  by (auto simp: extends_def list_all_iff)

lemma mkdirSync_trace: "mkdirSync p w = (r, w') \<Longrightarrow> trace w' = trace w @ [Mkdir p]"
  by (auto simp: mkdirSync_def split: sum.splits)

lemma copyFileSync_trace: "copyFileSync s d w = (r, w') \<Longrightarrow> trace w' = trace w @ [CopyFile s d]"
  by (auto simp: copyFileSync_def split: sum.splits)

lemma writeFileSync_trace:
  "writeFileSync E p c w = (r, w') \<Longrightarrow> trace w' = trace w @ [WriteFile p (utf8Encode E c)]"
  by (auto simp: writeFileSync_def split: sum.splits)

lemma copiesFrom_append: "copiesFrom (src @ r) e \<Longrightarrow> copiesFrom src e"
  by (auto simp: copiesFrom_def prefix_def split: event.splits)

lemma copy_extends:
  "copy n src dest w = Some (r, w') \<Longrightarrow> extends (copiesFrom src) w w'"
  "copyEach n src dest files w = Some (r, w') \<Longrightarrow> extends (copiesFrom src) w w'"
proof (induction n src dest w and n src dest files w arbitrary: r w' and r w' rule: copy_copyEach.induct)
  case (1 src dest w)
  then show ?case by simp
next
  case (2 n src dest w)
  show ?case
  proof (cases "lookup (fs w) src")
    case None
    with "2.prems" show ?thesis by (auto simp: extends_refl)
  next
    case (Some nd)
    show ?thesis
    proof (cases nd)
      case (File c)
      with Some "2.prems" have "copyFileSync src dest w = (r, w')" by simp
      then have "trace w' = trace w @ [CopyFile src dest]" by (rule copyFileSync_trace)
      then show ?thesis by (simp add: extends_def copiesFrom_def)
    next
      case (Dir es)
      obtain r1 w1 where mk: "mkdirSync dest w = (r1, w1)" by (cases "mkdirSync dest w")
      then have "trace w1 = trace w @ [Mkdir dest]" by (rule mkdirSync_trace)
      then have e1: "extends (copiesFrom src) w w1" by (simp add: extends_def copiesFrom_def)
      show ?thesis
      proof (cases r1)
        case (Some e)
        with Some Dir mk "2.prems" \<open>lookup (fs w) src = Some nd\<close> have "w' = w1" by simp
        with e1 show ?thesis by simp
      next
        case None
        show ?thesis
        proof (cases "readdirAt w1 src")
          case (Inl e)
          with None Dir mk "2.prems" \<open>lookup (fs w) src = Some nd\<close> have "w' = w1" by simp
          with e1 show ?thesis by simp
        next
          case (Inr files)
          with None Dir mk "2.prems" \<open>lookup (fs w) src = Some nd\<close>
          have "copyEach n src dest files w1 = Some (r, w')" by simp
          then have "extends (copiesFrom src) w1 w'"
            by (rule "2.IH" [OF \<open>lookup (fs w) src = Some nd\<close> Dir mk [symmetric] None Inr])
          with e1 show ?thesis by (rule extends_trans)
        qed
      qed
    qed
  qed
next
  case (3 n src dest w)
  then show ?case by (simp add: extends_refl)
next
  case (4 n src dest f files w)
  show ?case
  proof (cases "copy n (src @ [f]) (dest @ [f]) w")
    case None
    with "4.prems" show ?thesis by simp
  next
    case (Some res)
    obtain r1 w1 where res: "res = (r1, w1)" by (cases res)
    with Some "4.IH"(1) have "extends (copiesFrom (src @ [f])) w w1" by simp
    then have e1: "extends (copiesFrom src) w w1"
      by (rule extends_mono) (rule copiesFrom_append)
    show ?thesis
    proof (cases r1)
      case (Some e)
      with res \<open>copy n (src @ [f]) (dest @ [f]) w = Some res\<close> "4.prems" have "w' = w1" by simp
      with e1 show ?thesis by simp
    next
      case None
      with res \<open>copy n (src @ [f]) (dest @ [f]) w = Some res\<close> "4.prems"
      have "copyEach n src dest files w1 = Some (r, w')" by simp
      then have "extends (copiesFrom src) w1 w'"
        by (rule "4.IH"(2) [OF \<open>copy n (src @ [f]) (dest @ [f]) w = Some res\<close> res [symmetric] None])
      with e1 show ?thesis by (rule extends_trans)
    qed
  qed
qed

lemma write'_copy_extends:
  "write' E fuel td root f None w = Some (r, w') \<Longrightarrow> extends (copiesFrom (td @ [f])) w w'"
  by (auto simp: write'_def Let_def copy_extends extends_refl split: sum.splits)

lemma writeEach_extends:
  "writeEach E fuel td root files w = Some (r, w') \<Longrightarrow>
     extends (\<lambda>e. \<exists>f\<in>set files. copiesFrom (td @ [f]) e) w w'"
proof (induction files arbitrary: w)
  case Nil
  then show ?case by (simp add: extends_refl)
next
  case (Cons f files)
  show ?case
  proof (cases "write' E fuel td root f None w")
    case None
    with Cons.prems show ?thesis by simp
  next
    case (Some res)
    obtain r1 w1 where res: "res = (r1, w1)" by (cases res)
    with Some have "extends (copiesFrom (td @ [f])) w w1" by (simp add: write'_copy_extends)
    then have e1: "extends (\<lambda>e. \<exists>g\<in>set (f # files). copiesFrom (td @ [g]) e) w w1"
      by (rule extends_mono) simp
    show ?thesis
    proof (cases r1)
      case (Some e)
      with res \<open>write' E fuel td root f None w = Some res\<close> Cons.prems have "w' = w1" by simp
      with e1 show ?thesis by simp
    next
      case None
      with res \<open>write' E fuel td root f None w = Some res\<close> Cons.prems
      have "writeEach E fuel td root files w1 = Some (r, w')" by simp
      then have "extends (\<lambda>e. \<exists>g\<in>set files. copiesFrom (td @ [g]) e) w1 w'" by (rule Cons.IH)
      then have "extends (\<lambda>e. \<exists>g\<in>set (f # files). copiesFrom (td @ [g]) e) w1 w'"
        by (rule extends_mono) auto
      with e1 show ?thesis by (rule extends_trans)
    qed
  qed
qed

lemma copiesFrom_copiesNot:
  assumes "copiesFrom (td @ [f]) e" and "f \<noteq> g"
  shows "copiesNot (td @ [g]) e"
  using assms by (auto simp: copiesFrom_def copiesNot_def prefix_def split: event.splits)

lemma map_of_setEntry: "map_of (setEntry x n es) y = (if y = x then Some n else map_of es y)"
  by (induction es) auto

lemma putFile_lookup: "putFile n p c = Inr n' \<Longrightarrow> lookup n' p = Some (File c)"
proof (induction n p c arbitrary: n' rule: putFile.induct)
  case (3 es x c)
  then show ?case
    by (auto simp: map_of_setEntry split: option.splits node.splits)
next
  case (4 es x y p c)
  then show ?case
    by (auto simp: map_of_setEntry split: option.splits sum.splits)
qed simp_all

lemma writeFileSync_ok:
  assumes "writeFileSync E p c w = (None, w')"
  shows "trace w' = trace w @ [WriteFile p (utf8Encode E c)]"
    and "lookup (fs w') p = Some (File (utf8Encode E c))"
  using assms by (auto simp: writeFileSync_def putFile_lookup split: sum.splits)

lemma newline_not_empty: "s @ js ''\<newline>'' \<noteq> []"
  by (simp add: js_def)

lemma materialize_ok:
  assumes "materialize E fuel td root pn w = Some (None, w')"
  shows "\<exists>w1 raw pkg pkg'.
     extends (copiesNot (td @ [js ''package.json''])) w w1 \<and>
     readFileAt w1 (td @ [js ''package.json'']) = Inr raw \<and>
     JSON_parse E (utf8Decode E raw) = Inr pkg \<and>
     setName pkg pn = Inr pkg' \<and>
     trace w' = trace w1 @ [WriteFile (root @ [js ''package.json''])
                              (utf8Encode E (JSON_stringify E pkg' 2 @ js ''\<newline>''))] \<and>
     lookup (fs w') (root @ [js ''package.json'']) =
       Some (File (utf8Encode E (JSON_stringify E pkg' 2 @ js ''\<newline>'')))"
proof -
  from assms obtain files where files: "readdirAt w td = Inr files"
    by (auto simp: materialize_def split: sum.splits)
  let ?bulk = "filter (\<lambda>f. f \<noteq> js ''package.json'') files"
  from assms files obtain w1 where bulk: "writeEach E fuel td root ?bulk w = Some (None, w1)"
    by (auto simp: materialize_def split: option.splits sum.splits prod.splits)
  from assms files bulk obtain raw where raw: "readFileAt w1 (td @ [js ''package.json'']) = Inr raw"
    by (auto simp: materialize_def split: sum.splits)
  from assms files bulk raw obtain pkg where pkg: "JSON_parse E (utf8Decode E raw) = Inr pkg"
    by (auto simp: materialize_def split: sum.splits)
  from assms files bulk raw pkg obtain pkg' where pkg': "setName pkg pn = Inr pkg'"
    by (auto simp: materialize_def split: sum.splits)
  from assms files bulk raw pkg pkg'
  have wr: "writeFileSync E (root @ [js ''package.json''])
              (JSON_stringify E pkg' 2 @ js ''\<newline>'') w1 = (None, w')"
    by (simp add: materialize_def write'_def targetName_def renameFiles_def objectPrototype_def
        newline_not_empty js_def cu_def)
  from bulk have "extends (\<lambda>e. \<exists>f\<in>set ?bulk. copiesFrom (td @ [f]) e) w w1"
    by (rule writeEach_extends)
  then have "extends (copiesNot (td @ [js ''package.json''])) w w1"
    by (rule extends_mono) (auto intro: copiesFrom_copiesNot)
  with raw pkg pkg' writeFileSync_ok [OF wr] show ?thesis by blast
qed

subsection \<open>The stages of \<open>init\<close>\<close>

lemma pkgFromUserAgent_total: "\<exists>p. pkgFromUserAgent ua = Inr p"
proof (cases ua)
  case None
  then show ?thesis by (simp add: pkgFromUserAgent_def)
next
  case (Some s)
  then show ?thesis
    by (cases "s = []") (simp add: pkgFromUserAgent_def, simp add: pkgFromUserAgent_Some)
qed

lemma emptyDir_extends: "emptyDir E dir w = (r, w') \<Longrightarrow> extends isRm w w'"
  by (auto simp: emptyDir_def extends_def emptyLoop_trace list_all_iff isRm_def
      split: if_splits sum.splits)

lemma resolveConflict_extends: "resolveConflict E I t w = (r, w') \<Longrightarrow> extends isRm w w'"
  by (auto simp: resolveConflict_def extends_refl split: if_splits sum.splits answer.splits
      overwriteChoice.splits prod.splits option.splits dest: emptyDir_extends)

lemma materialize_extends:
  assumes "materialize E fuel td root pn w = Some (r, w')"
  shows "extends (\<lambda>e. \<not> isRm e) w w'"
proof (cases "readdirAt w td")
  case (Inl e)
  with assms show ?thesis by (simp add: materialize_def extends_refl)
next
  case (Inr files)
  let ?bulk = "filter (\<lambda>f. f \<noteq> js ''package.json'') files"
  from assms Inr obtain r1 w1 where bulk: "writeEach E fuel td root ?bulk w = Some (r1, w1)"
    by (auto simp: materialize_def split: option.splits)
  then have "extends (\<lambda>e. \<exists>f\<in>set ?bulk. copiesFrom (td @ [f]) e) w w1"
    by (rule writeEach_extends)
  then have e1: "extends (\<lambda>e. \<not> isRm e) w w1"
    by (rule extends_mono) (auto simp: copiesFrom_def isRm_def split: event.splits)
  have "w' = w1 \<or> (\<exists>r2 c. writeFileSync E (root @ [js ''package.json'']) c w1 = (r2, w'))"
    using assms Inr bulk
    by (auto simp: materialize_def write'_def targetName_def renameFiles_def objectPrototype_def
        newline_not_empty js_def cu_def split: option.splits sum.splits)
  then show ?thesis
  proof
    assume "w' = w1"
    with e1 show ?thesis by simp
  next
    assume "\<exists>r2 c. writeFileSync E (root @ [js ''package.json'']) c w1 = (r2, w')"
    then obtain r2 c where "writeFileSync E (root @ [js ''package.json'']) c w1 = (r2, w')"
      by blast
    then have "trace w' = trace w1 @ [WriteFile (root @ [js ''package.json'']) (utf8Encode E c)]"
      by (rule writeFileSync_trace)
    then have "extends (\<lambda>e. \<not> isRm e) w1 w'"
      by (simp add: extends_def isRm_def)
    with e1 show ?thesis by (rule extends_trans)
  qed
qed

lemma scaffold_extends:
  assumes "scaffold E fuel I pkgInfo t pn template w = Some (out, w')"
  shows "extends (\<lambda>e. \<not> isRm e) w w'"
proof -
  obtain r1 w1 where mk: "mkdirSync (joinCwd E t) w = (r1, w1)"
    by (cases "mkdirSync (joinCwd E t) w")
  then have "trace w1 = trace w @ [Mkdir (joinCwd E t)]" by (rule mkdirSync_trace)
  then have e1: "extends (\<lambda>e. \<not> isRm e) w w1" by (simp add: extends_def isRm_def)
  have "w' = w1 \<or> (\<exists>c a. w' = w1\<lparr>trace := trace w1 @ [Spawn c a]\<rparr>) \<or>
        (\<exists>r. materialize E fuel (templateDirOf E template) (joinCwd E t) pn w1 = Some (r, w'))"
    using assms mk
    by (auto simp: scaffold_def Let_def split: option.splits sum.splits prod.splits)
  then consider "w' = w1" | c a where "w' = w1\<lparr>trace := trace w1 @ [Spawn c a]\<rparr>"
    | r where "materialize E fuel (templateDirOf E template) (joinCwd E t) pn w1 = Some (r, w')"
    by blast
  then have "extends (\<lambda>e. \<not> isRm e) w1 w'"
  proof cases
    case 1
    then show ?thesis by (simp add: extends_refl)
  next
    case 2
    then show ?thesis by (simp add: extends_def isRm_def)
  next
    case 3
    then show ?thesis by (rule materialize_extends)
  qed
  with e1 show ?thesis by (rule extends_trans)
qed

lemma init_after_conflict:
  assumes "init E fuel I w = Some (out, w')" and "\<not> argHelp I"
    and "resolveTargetDir I = Some t" and "resolveConflict E I t w = (None, w1)"
  shows "extends (\<lambda>e. \<not> isRm e) w1 w'"
proof -
  obtain pkgInfo where p: "pkgFromUserAgent (userAgent I) = Inr pkgInfo"
    using pkgFromUserAgent_total by blast
  have "w' = w1 \<or> (\<exists>pn template. scaffold E fuel I pkgInfo t pn template w1 = Some (out, w'))"
    using assms p by (auto simp: init_def split: option.splits sum.splits)
  then show ?thesis
    by (auto simp: extends_refl dest: scaffold_extends)
qed

lemma resolveTemplate_not_Finished: "resolveTemplate I p \<noteq> Inl Finished"
  by (auto simp: resolveTemplate_def Let_def split: option.splits answer.splits)

lemma resolveConflict_not_Finished: "resolveConflict E I t w \<noteq> (Some Finished, w')"
  by (auto simp: resolveConflict_def split: if_splits sum.splits answer.splits
      overwriteChoice.splits prod.splits option.splits)

lemma init_Finished:
  assumes "init E fuel I w = Some (Finished, w')"
  shows "\<exists>pkgInfo t pn template w1 w2.
     pkgFromUserAgent (userAgent I) = Inr pkgInfo \<and>
     resolveTargetDir I = Some t \<and>
     resolveConflict E I t w = (None, w1) \<and>
     resolvePackageName E I t = Some pn \<and>
     resolveTemplate I pkgInfo = Inr template \<and>
     mkdirSync (joinCwd E t) w1 = (None, w2) \<and>
     materialize E fuel (templateDirOf E template) (joinCwd E t) pn w2 = Some (None, w')"
  using assms resolveTemplate_not_Finished [of I] resolveConflict_not_Finished [of E I _ w w']
  by (auto simp: init_def scaffold_def Let_def
      split: if_splits option.splits sum.splits prod.splits)

subsection \<open>Runs that return\<close>

text \<open>
  When the directory of the template and the target directory of a run lie apart, nothing
  that is written changes what is read, and \<open>copy\<close> returns once the fuel exceeds the depth of
  the tree it copies. So does \<open>init\<close>, with a result or with the exception thrown.
\<close>

lemma fold_max_ge: "x \<in> set xs \<Longrightarrow> x \<le> fold max xs (m::nat)"
proof (induction xs arbitrary: m)
  case Nil
  then show ?case by simp
next
  case (Cons a xs)
  have mono: "m \<le> fold max xs m" for m :: nat
    by (induction xs arbitrary: m) (auto intro: order_trans [OF max.cobounded2])
  show ?case
  proof (cases "x = a")
    case True
    have "a \<le> max a m" by simp
    also have "\<dots> \<le> fold max xs (max a m)" by (rule mono)
    finally show ?thesis using True by simp
  next
    case False
    with Cons.prems have "x \<in> set xs" by simp
    then show ?thesis by (simp add: Cons.IH)
  qed
qed

lemma depth_child: "map_of es x = Some n \<Longrightarrow> depth n < depth (Dir es)"
proof -
  assume "map_of es x = Some n"
  then have "(x, n) \<in> set es" by (rule map_of_SomeD)
  then have "depth n \<in> set (map (\<lambda>e. depth (snd e)) es)" by force
  then have "depth n \<le> fold max (map (\<lambda>e. depth (snd e)) es) 0" by (rule fold_max_ge)
  then show ?thesis by simp
qed

lemma mkdirp_frame:
  "mkdirp n p = Inr n' \<Longrightarrow> diverge p q \<Longrightarrow> lookup n' q = lookup n q"
proof (induction p arbitrary: n n' q)
  case Nil
  then show ?case by (simp add: diverge_def)
next
  case (Cons x p)
  from Cons.prems obtain es where n: "n = Dir es" by (cases n) auto
  from Cons.prems obtain y q' where q: "q = y # q'" by (cases q) (auto simp: diverge_def)
  let ?c = "case map_of es x of None \<Rightarrow> Dir [] | Some n \<Rightarrow> n"
  from Cons.prems n obtain m where m: "mkdirp ?c p = Inr m" and n': "n' = Dir (setEntry x m es)"
    by (auto split: sum.splits)
  show ?case
  proof (cases "y = x")
    case False
    with n n' q show ?thesis by (simp add: map_of_setEntry)
  next
    case True
    with Cons.prems(2) q have d: "diverge p q'" by (simp add: diverge_def)
    with m have l: "lookup m q' = lookup ?c q'" by (rule Cons.IH)
    from d obtain z q'' where "q' = z # q''" by (cases q') (auto simp: diverge_def)
    with l True n n' q show ?thesis
      by (cases "map_of es x") (simp_all add: map_of_setEntry)
  qed
qed

lemma putFile_frame:
  "putFile n p c = Inr n' \<Longrightarrow> diverge p q \<Longrightarrow> lookup n' q = lookup n q"
proof (induction n p c arbitrary: n' q rule: putFile.induct)
  case (1 n c)
  then show ?case by simp
next
  case (2 b x p c)
  then show ?case by simp
next
  case (3 es x c)
  from "3.prems" obtain y q' where q: "q = y # q'" by (cases q) (auto simp: diverge_def)
  with "3.prems"(2) have "y \<noteq> x" by (auto simp: diverge_def)
  with "3.prems"(1) q show ?case
    by (auto simp: map_of_setEntry split: option.splits node.splits)
next
  case (4 es x y p c)
  from "4.prems" obtain z q' where q: "q = z # q'" by (cases q) (auto simp: diverge_def)
  from "4.prems"(1) obtain n1 m where n1: "map_of es x = Some n1"
    and m: "putFile n1 (y # p) c = Inr m" and n': "n' = Dir (setEntry x m es)"
    by (auto split: option.splits sum.splits)
  show ?case
  proof (cases "z = x")
    case False
    with n' q show ?thesis by (simp add: map_of_setEntry)
  next
    case True
    with "4.prems"(2) q have "diverge (y # p) q'" by (simp add: diverge_def)
    with "4.IH" [OF n1 m] have "lookup m q' = lookup n1 q'" by simp
    with True n' q n1 show ?thesis by (simp add: map_of_setEntry)
  qed
qed

lemma diverge_sym: "diverge p q \<Longrightarrow> diverge q p"
  by (simp add: diverge_def)

lemma diverge_append: "diverge p q \<Longrightarrow> diverge (p @ r) q"
proof -
  assume d: "diverge p q"
  have "\<not> prefix (p @ r) q"
    using d by (auto simp: diverge_def prefix_def)
  moreover have "\<not> prefix q (p @ r)"
  proof
    assume "prefix q (p @ r)"
    moreover have "prefix p (p @ r)" by simp
    ultimately have "prefix q p \<or> prefix p q" by (rule prefix_same_cases)
    with d show False by (simp add: diverge_def)
  qed
  ultimately show ?thesis by (simp add: diverge_def)
qed

lemma diverge_append2: "diverge p q \<Longrightarrow> diverge (p @ r) (q @ s)"
  by (blast intro: diverge_append diverge_sym)

lemma lookup_append:
  "lookup n (p @ q) = (case lookup n p of None \<Rightarrow> None | Some m \<Rightarrow> lookup m q)"
proof (induction p arbitrary: n)
  case Nil
  show ?case by simp
next
  case (Cons x p)
  show ?case
  proof (cases n)
    case (File c)
    then show ?thesis by simp
  next
    case (Dir es)
    with Cons show ?thesis by (cases "map_of es x") simp_all
  qed
qed

lemma depth_lookup: "lookup n p = Some m \<Longrightarrow> depth m \<le> depth n"
proof (induction p arbitrary: n)
  case Nil
  then show ?case by simp
next
  case (Cons x p)
  from Cons.prems obtain es where n: "n = Dir es" by (cases n) auto
  with Cons.prems obtain c where c: "map_of es x = Some c" and "lookup c p = Some m"
    by (auto split: option.splits)
  then have "depth m \<le> depth c" by (simp add: Cons.IH)
  also from c have "depth c < depth (Dir es)" by (rule depth_child)
  finally show ?case using n by simp
qed

lemma frame_refl: "frame dest w w"
  by (simp add: frame_def)

lemma frame_trans: "frame dest w w1 \<Longrightarrow> frame dest w1 w2 \<Longrightarrow> frame dest w w2"
  by (simp add: frame_def)

lemma frame_append: "frame (dest @ r) w w' \<Longrightarrow> frame dest w w'"
  by (simp add: frame_def diverge_append)

lemma mkdirSync_frame: "mkdirSync p w = (r, w') \<Longrightarrow> frame p w w'"
  by (auto simp: mkdirSync_def frame_def mkdirp_frame split: sum.splits)

lemma copyFileSync_frame: "copyFileSync s d w = (r, w') \<Longrightarrow> frame d w w'"
  by (auto simp: copyFileSync_def frame_def putFile_frame split: sum.splits)

lemma writeFileSync_frame: "writeFileSync E p c w = (r, w') \<Longrightarrow> frame p w w'"
  by (auto simp: writeFileSync_def frame_def putFile_frame split: sum.splits)

lemma copy_returns:
  "diverge src dest \<Longrightarrow> enough n w src \<Longrightarrow>
     \<exists>r w'. copy n src dest w = Some (r, w') \<and> frame dest w w'"
  "diverge src dest \<Longrightarrow> \<forall>f\<in>set files. enough n w (src @ [f]) \<Longrightarrow>
     \<exists>r w'. copyEach n src dest files w = Some (r, w') \<and> frame dest w w'"
proof (induction n src dest w and n src dest files w rule: copy_copyEach.induct)
  case (1 src dest w)
  then show ?case by (simp add: enough_def)
next
  case (2 n src dest w)
  show ?case
  proof (cases "lookup (fs w) src")
    case None
    then show ?thesis by (auto simp: frame_refl)
  next
    case (Some nd)
    show ?thesis
    proof (cases nd)
      case (File c)
      obtain r w' where "copyFileSync src dest w = (r, w')" by (cases "copyFileSync src dest w")
      with Some File show ?thesis by (auto dest: copyFileSync_frame)
    next
      case (Dir es)
      obtain r1 w1 where mk: "mkdirSync dest w = (r1, w1)" by (cases "mkdirSync dest w")
      then have f1: "frame dest w w1" by (rule mkdirSync_frame)
      show ?thesis
      proof (cases r1)
        case (Some e)
        with \<open>lookup (fs w) src = Some nd\<close> Dir mk f1 show ?thesis by auto
      next
        case None
        from "2.prems"(1) have ds: "diverge dest src" by (rule diverge_sym)
        with f1 have same: "lookup (fs w1) src = Some (Dir es)"
          using \<open>lookup (fs w) src = Some nd\<close> Dir by (simp add: frame_def)
        then have rd: "readdirAt w1 src = Inr (map fst es)" by (simp add: readdirAt_def)
        have "\<forall>f\<in>set (map fst es). enough n w1 (src @ [f])"
        proof
          fix f assume "f \<in> set (map fst es)"
          then obtain c where c: "map_of es f = Some c"
            by (metis map_of_eq_None_iff not_Some_eq set_map)
          then have "depth c < depth (Dir es)" by (rule depth_child)
          moreover from "2.prems"(2) \<open>lookup (fs w) src = Some nd\<close> Dir
          have "depth (Dir es) < Suc n" by (simp add: enough_def)
          ultimately have "depth c < n" by simp
          moreover have "lookup (fs w1) (src @ [f]) = Some c"
            using same c by (simp add: lookup_append)
          ultimately show "enough n w1 (src @ [f])" by (auto simp: enough_def)
        qed
        with "2.IH" [OF \<open>lookup (fs w) src = Some nd\<close> Dir mk [symmetric] None rd "2.prems"(1)]
        obtain r w' where "copyEach n src dest (map fst es) w1 = Some (r, w')" "frame dest w1 w'"
          by blast
        with \<open>lookup (fs w) src = Some nd\<close> Dir mk None rd f1 show ?thesis
          by (auto intro: frame_trans)
      qed
    qed
  qed
next
  case (3 n src dest w)
  then show ?case by (simp add: frame_refl)
next
  case (4 n src dest f files w)
  from "4.prems"(1) have d: "diverge (src @ [f]) (dest @ [f])" by (rule diverge_append2)
  from "4.prems"(2) have "enough n w (src @ [f])" by simp
  with "4.IH"(1) [OF d] obtain r1 w1 where
    c: "copy n (src @ [f]) (dest @ [f]) w = Some (r1, w1)" and "frame (dest @ [f]) w w1"
    by blast
  then have f1: "frame dest w w1" by (blast intro: frame_append)
  show ?case
  proof (cases r1)
    case (Some e)
    with c f1 show ?thesis by auto
  next
    case None
    have "\<forall>g\<in>set files. enough n w1 (src @ [g])"
    proof
      fix g assume "g \<in> set files"
      with "4.prems"(2) have "enough n w (src @ [g])" by simp
      moreover from "4.prems"(1) have "diverge dest (src @ [g])"
        by (blast intro: diverge_append diverge_sym)
      with f1 have "lookup (fs w1) (src @ [g]) = lookup (fs w) (src @ [g])"
        by (simp add: frame_def)
      ultimately show "enough n w1 (src @ [g])" by (simp add: enough_def)
    qed
    with "4.IH"(2) [OF c refl None "4.prems"(1)]
    obtain r w' where "copyEach n src dest files w1 = Some (r, w')" "frame dest w1 w'"
      by blast
    with c None f1 show ?thesis by (auto intro: frame_trans)
  qed
qed

lemma enough_child:
  assumes "lookup (fs w) td = Some (Dir es)" and "depth (Dir es) < fuel" and "f \<in> set (map fst es)"
  shows "enough fuel w (td @ [f])"
proof -
  from assms(3) obtain c where c: "map_of es f = Some c"
    by (metis map_of_eq_None_iff not_Some_eq set_map)
  then have "depth c < depth (Dir es)" by (rule depth_child)
  with assms(2) have "depth c < fuel" by simp
  moreover have "lookup (fs w) (td @ [f]) = Some c"
    using assms(1) c by (simp add: lookup_append)
  ultimately show ?thesis by (auto simp: enough_def)
qed

lemma write'_returns:
  assumes "diverge td root" and "enough fuel w (td @ [f])"
  shows "\<exists>r w'. write' E fuel td root f content w = Some (r, w') \<and> frame root w w'"
proof (cases "targetName f")
  case (Inl e)
  then show ?thesis by (simp add: write'_def frame_refl)
next
  case (Inr target)
  from assms(1) have "diverge (td @ [f]) (root @ [target])" by (rule diverge_append2)
  from copy_returns(1) [OF this assms(2)] obtain r w' where
    c: "copy fuel (td @ [f]) (root @ [target]) w = Some (r, w')" and "frame (root @ [target]) w w'"
    by blast
  then have fc: "frame root w w'" by (blast intro: frame_append)
  obtain r2 w2 where wf: "writeFileSync E (root @ [target]) (case content of Some c \<Rightarrow> c | None \<Rightarrow> []) w = (r2, w2)"
    by (cases "writeFileSync E (root @ [target]) (case content of Some c \<Rightarrow> c | None \<Rightarrow> []) w")
  then have "frame (root @ [target]) w w2" by (rule writeFileSync_frame)
  then have fw: "frame root w w2" by (rule frame_append)
  show ?thesis
  proof (cases content)
    case None
    with Inr c fc show ?thesis by (simp add: write'_def)
  next
    case (Some s)
    show ?thesis
    proof (cases "s = []")
      case True
      with Some Inr c fc show ?thesis by (simp add: write'_def)
    next
      case False
      with Some Inr wf fw show ?thesis by (simp add: write'_def)
    qed
  qed
qed

lemma writeEach_returns:
  assumes "diverge td root" and "\<forall>f\<in>set files. enough fuel w (td @ [f])"
  shows "\<exists>r w'. writeEach E fuel td root files w = Some (r, w') \<and> frame root w w'"
  using assms(2)
proof (induction files arbitrary: w)
  case Nil
  show ?case by (simp add: frame_refl)
next
  case (Cons f files)
  from Cons.prems have "enough fuel w (td @ [f])" by simp
  from write'_returns [OF assms(1) this] obtain r1 w1 where
    w1: "write' E fuel td root f None w = Some (r1, w1)" and f1: "frame root w w1"
    by blast
  show ?case
  proof (cases r1)
    case (Some e)
    with w1 f1 show ?thesis by auto
  next
    case None
    have "\<forall>g\<in>set files. enough fuel w1 (td @ [g])"
    proof
      fix g assume "g \<in> set files"
      with Cons.prems have "enough fuel w (td @ [g])" by simp
      moreover from assms(1) have "diverge root (td @ [g])"
        by (blast intro: diverge_append diverge_sym)
      with f1 have "lookup (fs w1) (td @ [g]) = lookup (fs w) (td @ [g])"
        by (simp add: frame_def)
      ultimately show "enough fuel w1 (td @ [g])" by (simp add: enough_def)
    qed
    then obtain r w' where "writeEach E fuel td root files w1 = Some (r, w')" "frame root w1 w'"
      using Cons.IH by blast
    with w1 None f1 show ?thesis by (auto intro: frame_trans)
  qed
qed

lemma materialize_returns:
  assumes "diverge td root" and "\<forall>nd. lookup (fs w) td = Some nd \<longrightarrow> depth nd < fuel"
  shows "\<exists>r w'. materialize E fuel td root pn w = Some (r, w')"
proof (cases "readdirAt w td")
  case (Inl e)
  then show ?thesis by (simp add: materialize_def)
next
  case (Inr files)
  then obtain es where es: "lookup (fs w) td = Some (Dir es)" and files: "files = map fst es"
    by (auto simp: readdirAt_def split: option.splits node.splits)
  with assms(2) have d: "depth (Dir es) < fuel" by simp
  let ?bulk = "filter (\<lambda>f. f \<noteq> js ''package.json'') files"
  have "\<forall>f\<in>set ?bulk. enough fuel w (td @ [f])"
    using enough_child [OF es d] files by simp
  from writeEach_returns [OF assms(1) this] obtain r1 w1 where
    bulk: "writeEach E fuel td root ?bulk w = Some (r1, w1)" by blast
  show ?thesis
  proof (cases r1)
    case (Some e)
    with Inr bulk show ?thesis by (simp add: materialize_def)
  next
    case None
    have pj: "targetName (js ''package.json'') = Inr (js ''package.json'')"
      by (simp add: targetName_def renameFiles_def objectPrototype_def js_def cu_def)
    have nl: "js ''\<newline>'' \<noteq> []"
      by (simp add: js_def)
    from Inr bulk None
    have "(\<exists>e. materialize E fuel td root pn w = Some (Some e, w1)) \<or>
          (\<exists>c. materialize E fuel td root pn w =
                 Some (writeFileSync E (root @ [js ''package.json'']) c w1))"
      by (auto simp: materialize_def write'_def pj nl Let_def split: sum.splits)
    then show ?thesis by (metis surj_pair)
  qed
qed

lemma scaffold_returns:
  assumes "diverge (templateDirOf E template) (joinCwd E t)"
    and "\<forall>nd. lookup (fs w) (templateDirOf E template) = Some nd \<longrightarrow> depth nd < fuel"
  shows "\<exists>out w'. scaffold E fuel I pkgInfo t pn template w = Some (out, w')"
proof -
  obtain r1 w1 where mk: "mkdirSync (joinCwd E t) w = (r1, w1)"
    by (cases "mkdirSync (joinCwd E t) w")
  show ?thesis
  proof (cases r1)
    case (Some e)
    with mk show ?thesis by (simp add: scaffold_def)
  next
    case None
    show ?thesis
    proof (cases "truthy (customCommandOf template)")
      case (Some c)
      with mk None show ?thesis
        by (cases "delegate c pkgInfo t") (auto simp: scaffold_def)
    next
      case no: None
      from mk have "frame (joinCwd E t) w w1" by (rule mkdirSync_frame)
      moreover from assms(1) have "diverge (joinCwd E t) (templateDirOf E template)"
        by (rule diverge_sym)
      ultimately have "lookup (fs w1) (templateDirOf E template) = lookup (fs w) (templateDirOf E template)"
        by (simp add: frame_def)
      with assms(2) have "\<forall>nd. lookup (fs w1) (templateDirOf E template) = Some nd \<longrightarrow> depth nd < fuel"
        by simp
      from materialize_returns [OF assms(1) this] obtain r w' where
        "materialize E fuel (templateDirOf E template) (joinCwd E t) pn w1 = Some (r, w')"
        by blast
      with mk None no show ?thesis
        by (cases r) (auto simp: scaffold_def)
    qed
  qed
qed

lemma init_returns:
  assumes "\<And>pkgInfo t template.
      pkgFromUserAgent (userAgent I) = Inr pkgInfo \<Longrightarrow> resolveTargetDir I = Some t \<Longrightarrow>
      resolveTemplate I pkgInfo = Inr template \<Longrightarrow>
      diverge (templateDirOf E template) (joinCwd E t)"
  shows "\<exists>n. \<forall>fuel>n. \<exists>out w'. init E fuel I w = Some (out, w')"
proof -
  obtain pkgInfo where p: "pkgFromUserAgent (userAgent I) = Inr pkgInfo"
    using pkgFromUserAgent_total by blast
  show ?thesis
  proof (cases "resolveTargetDir I")
    case None
    with p show ?thesis by (auto simp: init_def)
  next
    case (Some t)
    obtain r1 w1 where c: "resolveConflict E I t w = (r1, w1)"
      by (cases "resolveConflict E I t w")
    show ?thesis
    proof (cases "resolveTemplate I pkgInfo")
      case (Inl out)
      with p Some c show ?thesis
        by (auto simp: init_def split: option.splits)
    next
      case (Inr template)
      have "\<forall>fuel>depth (fs w1). \<exists>out w'. init E fuel I w = Some (out, w')"
      proof (intro allI impI)
        fix fuel assume fuel: "depth (fs w1) < fuel"
        have "\<exists>out w'. scaffold E fuel I pkgInfo t pn template w1 = Some (out, w')" for pn
        proof (rule scaffold_returns)
          show "diverge (templateDirOf E template) (joinCwd E t)"
            using p Some Inr by (rule assms)
          show "\<forall>nd. lookup (fs w1) (templateDirOf E template) = Some nd \<longrightarrow> depth nd < fuel"
            using fuel depth_lookup [of "fs w1" "templateDirOf E template"]
            by (auto intro: le_less_trans)
        qed
        with p Some c Inr show "\<exists>out w'. init E fuel I w = Some (out, w')"
          by (auto simp: init_def split: option.splits)
      qed
      then show ?thesis by blast
    qed
  qed
qed

lemma demoEnv_returns: "\<exists>n. \<forall>fuel>n. \<exists>out w'. init demoEnv fuel I w = Some (out, w')"
proof (rule init_returns)
  fix t template
  show "diverge (templateDirOf demoEnv template) (joinCwd demoEnv t)"
    by (simp add: diverge_def demoEnv_def js_def cu_def)
qed

text \<open>
  No variant of the catalog has a delegate command, so no run of \<open>init\<close> ends in the
  delegate branch.
\<close>

lemma customCommandOf_None: "customCommandOf template = None"
  by (simp add: customCommandOf_def FRAMEWORKS_def)

lemma resolveConflict_not_Exited: "resolveConflict E I t w \<noteq> (Some (Exited st), w')"
  by (auto simp: resolveConflict_def split: if_splits sum.splits answer.splits
      overwriteChoice.splits prod.splits option.splits)

lemma resolveTemplate_not_Exited: "resolveTemplate I p \<noteq> Inl (Exited st)"
  by (auto simp: resolveTemplate_def Let_def split: option.splits answer.splits)

lemma init_never_delegates: "init E fuel I w \<noteq> Some (Exited st, w')"
  using resolveTemplate_not_Exited [of I _ st] resolveConflict_not_Exited [of E I _ w st w']
  by (auto simp: init_def scaffold_def Let_def customCommandOf_None truthy_def
      split: if_splits option.splits sum.splits prod.splits)

lemma replicate_2: "replicate 2 x = [x, x]"
  by (simp add: numeral_2_eq_2)

lemmas run_eval =
  init_def pkgFromUserAgent_def split.simps at_def resolveTargetDir_def truthy_def
  formatTargetDir_def replaceTrailingRun_def trim_def isSpace_def in_cls_def WhiteSpace_def
  resolveConflict_def existsSync_def isEmpty_def isEmptyListing_def readdirSync_def readdirAt_def
  emptyDir_def rmSync_def resolvePackageName_def basename_def isValidPackageName_def
  packageNameRx_def Lit_def Opt_def one_def rng_def scopeHead_def scopeTail_def nameHead_def
  nameTail_def resolveTemplate_def TEMPLATES_def FRAMEWORKS_def scaffold_def customCommandOf_def
  mkdirSync_def materialize_def write'_def targetName_def renameFiles_def objectPrototype_def
  copyFileSync_def writeFileSync_def
  readFileAt_def demoParse_def demoStringify_def demoEnv_def demoFs_def demoWorld_def
  demoInputs_def demoBare_def bytesOf_def js_def cu_def Let_def numeral_3_eq_3 replicate_2


subsection \<open>DirectoryConflictResolver\<close>

text \<open>
  C7: a listing is classified as empty exactly when it has no entry or \<open>.git\<close> as its
  only entry; every other listing is not empty. So \<open>isEmpty\<close> on a directory answers by
  the names of its entries.
\<close>

theorem isEmpty_classification:
  "isEmptyListing files = (files = [] \<or> files = [js ''.git'']) \<and>
   (p \<noteq> [] \<longrightarrow> lookup (fs w) (resolve E p) = Some (Dir es) \<longrightarrow>
      isEmpty E w p = Inr (map fst es = [] \<or> map fst es = [js ''.git'']))"
  by (simp add: isEmptyListing_iff isEmpty_def readdirSync_def readdirAt_def)

text \<open>
  C7 in the example world: \<open>my-app\<close>, with \<open>.git\<close> and an old file, is not empty; a directory
  with \<open>.git\<close> alone is.
\<close>

theorem isEmpty_classification_witness:
  "js ''my-app'' \<noteq> [] \<and>
   isEmpty demoEnv demoWorld (js ''my-app'') = Inr False \<and>
   isEmpty demoEnv \<lparr>fs = Dir [(js ''home'', Dir [(js ''my-app'', Dir [(js ''.git'', Dir [])])])],
                     trace = []\<rparr> (js ''my-app'') = Inr True"
proof -
  let ?es = "[(js ''.git'', Dir [(js ''HEAD'', File (bytesOf ''ref''))]),
              (js ''old.txt'', File (bytesOf ''old''))]"
  let ?w = "\<lparr>fs = Dir [(js ''home'', Dir [(js ''my-app'', Dir [(js ''.git'', Dir [])])])],
             trace = []\<rparr>"
  have ne: "js ''my-app'' \<noteq> []"
    by (simp add: js_def)
  have 1: "lookup (fs demoWorld) (resolve demoEnv (js ''my-app'')) = Some (Dir ?es)"
    by (simp add: demoWorld_def demoFs_def demoEnv_def js_def cu_def)
  have 2: "lookup (fs ?w) (resolve demoEnv (js ''my-app'')) = Some (Dir [(js ''.git'', Dir [])])"
    by (simp add: demoEnv_def js_def cu_def)
  from isEmpty_classification [of "[]" "js ''my-app''" demoWorld demoEnv ?es] ne 1
  have "isEmpty demoEnv demoWorld (js ''my-app'') = Inr False"
    by (simp add: js_def cu_def)
  moreover from isEmpty_classification [of "[]" "js ''my-app''" ?w demoEnv "[(js ''.git'', Dir [])]"] ne 2
  have "isEmpty demoEnv ?w (js ''my-app'') = Inr True"
    by simp
  ultimately show ?thesis using ne by simp
qed

text \<open>
  C8: \<open>emptyDir\<close> changes nothing and does not fail when the path does not exist. On a
  directory it removes every entry but \<open>.git\<close>, in the order of the listing, and what
  is left of the directory are its \<open>.git\<close> entries as they were. When \<open>init\<close> runs with
  \<open>--overwrite\<close> on a target directory that is not empty, these removals are the first
  events of the run: every directory made and every file copied or written comes
  after them.
\<close>

theorem emptyDir_clears:
  "(\<not> existsSync E w absent \<longrightarrow> emptyDir E absent w = (None, w)) \<and>
   (dir \<noteq> [] \<longrightarrow> lookup (fs w) (resolve E dir) = Some (Dir es) \<longrightarrow>
      (\<exists>w1. emptyDir E dir w = (None, w1) \<and>
         lookup (fs w1) (resolve E dir) = Some (Dir (filter (\<lambda>e. fst e = js ''.git'') es)) \<and>
         trace w1 = trace w @ map (\<lambda>f. Rm (resolve E dir @ [f]))
                                (filter (\<lambda>f. f \<noteq> js ''.git'') (map fst es)))) \<and>
   (argOverwrite I \<longrightarrow> \<not> argHelp I \<longrightarrow> resolveTargetDir I = Some dir \<longrightarrow> dir \<noteq> [] \<longrightarrow>
    lookup (fs w) (resolve E dir) = Some (Dir es) \<longrightarrow> \<not> isEmptyListing (map fst es) \<longrightarrow>
    init E fuel I w = Some (out, w') \<longrightarrow>
      (\<exists>rest. trace w' = trace w @ map (\<lambda>f. Rm (resolve E dir @ [f]))
                                      (filter (\<lambda>f. f \<noteq> js ''.git'') (map fst es)) @ rest \<and>
         list_all (\<lambda>e. \<not> isRm e) rest))"
proof (intro conjI impI)
  assume "\<not> existsSync E w absent"
  then show "emptyDir E absent w = (None, w)" by (rule emptyDir_absent)
next
  assume d: "dir \<noteq> []" "lookup (fs w) (resolve E dir) = Some (Dir es)"
  from emptyDir_Dir [OF d] emptyLoop_trace [of "resolve E dir" "map fst es" w]
  show "\<exists>w1. emptyDir E dir w = (None, w1) \<and>
         lookup (fs w1) (resolve E dir) = Some (Dir (filter (\<lambda>e. fst e = js ''.git'') es)) \<and>
         trace w1 = trace w @ map (\<lambda>f. Rm (resolve E dir @ [f]))
                                (filter (\<lambda>f. f \<noteq> js ''.git'') (map fst es))"
    by blast
next
  assume I: "argOverwrite I" "\<not> argHelp I" "resolveTargetDir I = Some dir"
    and d: "dir \<noteq> []" "lookup (fs w) (resolve E dir) = Some (Dir es)"
    and ne: "\<not> isEmptyListing (map fst es)"
    and run: "init E fuel I w = Some (out, w')"
  let ?w1 = "emptyLoop (resolve E dir) (map fst es) w"
  have "resolveConflict E I dir w = (None, ?w1)"
    using I(1) d ne emptyDir_Dir(1) [OF d]
    by (simp add: resolveConflict_def existsSync_def isEmpty_def readdirSync_def readdirAt_def)
  with run I(2,3) have "extends (\<lambda>e. \<not> isRm e) ?w1 w'"
    by (rule init_after_conflict)
  then obtain rest where "trace w' = trace ?w1 @ rest" "list_all (\<lambda>e. \<not> isRm e) rest"
    by (auto simp: extends_def)
  then show "\<exists>rest. trace w' = trace w @ map (\<lambda>f. Rm (resolve E dir @ [f]))
                                      (filter (\<lambda>f. f \<noteq> js ''.git'') (map fst es)) @ rest \<and>
         list_all (\<lambda>e. \<not> isRm e) rest"
    by (simp add: emptyLoop_trace)
qed

text \<open>
  C8 in the example world, where \<open>nowhere\<close> does not exist and \<open>my-app\<close> holds \<open>.git\<close> and
  \<open>old.txt\<close>: clearing \<open>nowhere\<close> changes nothing; clearing \<open>my-app\<close> leaves \<open>.git\<close> with
  its content; the run with \<open>--overwrite\<close> returns, and its trace starts with the removal
  of \<open>old.txt\<close>, followed by no further removal.
\<close>

theorem emptyDir_clears_witness:
  "emptyDir demoEnv (js ''nowhere'') demoWorld = (None, demoWorld) \<and>
   lookup (fs (snd (emptyDir demoEnv (js ''my-app'') demoWorld))) [js ''home'', js ''my-app''] =
     Some (Dir [(js ''.git'', Dir [(js ''HEAD'', File (bytesOf ''ref''))])]) \<and>
   (\<exists>w' rest. init demoEnv 3 demoInputs demoWorld = Some (Finished, w') \<and>
      trace w' = Rm [js ''home'', js ''my-app'', js ''old.txt''] # rest \<and>
      list_all (\<lambda>e. \<not> isRm e) rest)"
proof -
  let ?es = "[(js ''.git'', Dir [(js ''HEAD'', File (bytesOf ''ref''))]),
              (js ''old.txt'', File (bytesOf ''old''))]"
  have absent: "\<not> existsSync demoEnv demoWorld (js ''nowhere'')"
    by (simp add: existsSync_def demoWorld_def demoFs_def demoEnv_def js_def cu_def)
  have ne: "js ''my-app'' \<noteq> []"
    by (simp add: js_def)
  have dir: "lookup (fs demoWorld) (resolve demoEnv (js ''my-app'')) = Some (Dir ?es)"
    by (simp add: demoWorld_def demoFs_def demoEnv_def js_def cu_def)
  have I: "argOverwrite demoInputs" "\<not> argHelp demoInputs"
    "resolveTargetDir demoInputs = Some (js ''my-app'')"
    by (simp_all add: run_eval)
  have full: "\<not> isEmptyListing (map fst ?es)"
    by (simp add: isEmptyListing_def)
  have "map_option fst (init demoEnv 3 demoInputs demoWorld) = Some Finished"
    by (simp add: run_eval)
  then obtain w' where run: "init demoEnv 3 demoInputs demoWorld = Some (Finished, w')"
    by auto
  note inst = emptyDir_clears [of demoEnv demoWorld "js ''nowhere''" "js ''my-app''" ?es
      demoInputs 3 Finished w']
  from inst absent have 1: "emptyDir demoEnv (js ''nowhere'') demoWorld = (None, demoWorld)"
    by blast
  from inst ne dir obtain w1 where "emptyDir demoEnv (js ''my-app'') demoWorld = (None, w1)"
    and "lookup (fs w1) (resolve demoEnv (js ''my-app'')) =
           Some (Dir (filter (\<lambda>e. fst e = js ''.git'') ?es))"
    by blast
  then have 2: "lookup (fs (snd (emptyDir demoEnv (js ''my-app'') demoWorld)))
      [js ''home'', js ''my-app''] = Some (Dir [(js ''.git'', Dir [(js ''HEAD'', File (bytesOf ''ref''))])])"
    by (simp add: demoEnv_def js_def cu_def)
  from inst I ne dir full run obtain rest where
    "trace w' = trace demoWorld @ map (\<lambda>f. Rm (resolve demoEnv (js ''my-app'') @ [f]))
        (filter (\<lambda>f. f \<noteq> js ''.git'') (map fst ?es)) @ rest"
    and "list_all (\<lambda>e. \<not> isRm e) rest"
    by blast
  then have "trace w' = Rm [js ''home'', js ''my-app'', js ''old.txt''] # rest \<and>
      list_all (\<lambda>e. \<not> isRm e) rest"
    by (simp add: demoWorld_def demoEnv_def js_def cu_def)
  with 1 2 run show ?thesis by blast
qed


subsection \<open>FileMaterializer\<close>

lemma setName_object:
  "setName (JObject props) pn = Inr pkg' \<Longrightarrow>
     \<exists>props'. pkg' = JObject props' \<and> map_of props' (js ''name'') = Some (JString pn) \<and>
       (\<forall>k. k \<noteq> js ''name'' \<longrightarrow> map_of props' k = map_of props k)"
proof -
  have "map_of (setProperty k v ps) k' = (if k' = k then Some v else map_of ps k')" for k v ps k'
    by (induction ps) auto
  then show "setName (JObject props) pn = Inr pkg' \<Longrightarrow> ?thesis" by auto
qed

text \<open>
  C9: in a run of \<open>init\<close> that writes the project, the last event is the write of
  \<open>package.json\<close> in the target directory. Its content is \<open>JSON.stringify(pkg, null, 2)\<close>
  and a newline, where \<open>pkg\<close> is what \<open>JSON.parse\<close> made of the template's
  \<open>package.json\<close> (as read once the other files are copied), with \<open>name\<close> set to the
  resolved package name: a parsed object has \<open>name\<close> equal to the package name and
  every other property as parsed. The file is there in the end. Every event before
  is a removal, a directory made or a file copied, and no file is copied from the
  template's \<open>package.json\<close>: nothing else is written from the package name.
\<close>

theorem init_package_json:
  assumes "init E fuel I w = Some (Finished, w')"
  shows "\<exists>pkgInfo targetDir packageName template w1 raw pkg pkg'.
     pkgFromUserAgent (userAgent I) = Inr pkgInfo \<and>
     resolveTargetDir I = Some targetDir \<and>
     resolvePackageName E I targetDir = Some packageName \<and>
     resolveTemplate I pkgInfo = Inr template \<and>
     extends (copiesNot (templateDirOf E template @ [js ''package.json''])) w w1 \<and>
     readFileAt w1 (templateDirOf E template @ [js ''package.json'']) = Inr raw \<and>
     JSON_parse E (utf8Decode E raw) = Inr pkg \<and>
     setName pkg packageName = Inr pkg' \<and>
     (case pkg of
        JObject props \<Rightarrow>
          \<exists>props'. pkg' = JObject props' \<and>
            map_of props' (js ''name'') = Some (JString packageName) \<and>
            (\<forall>k. k \<noteq> js ''name'' \<longrightarrow> map_of props' k = map_of props k)
      | JArray xs \<Rightarrow> pkg' = pkg
      | _ \<Rightarrow> False) \<and>
     trace w' = trace w1 @ [WriteFile (joinCwd E targetDir @ [js ''package.json''])
                              (utf8Encode E (JSON_stringify E pkg' 2 @ js ''\<newline>''))] \<and>
     lookup (fs w') (joinCwd E targetDir @ [js ''package.json'']) =
       Some (File (utf8Encode E (JSON_stringify E pkg' 2 @ js ''\<newline>'')))"
proof -
  from init_Finished [OF assms] obtain pkgInfo t pn template w1 w2 where
    st: "pkgFromUserAgent (userAgent I) = Inr pkgInfo" "resolveTargetDir I = Some t"
      "resolvePackageName E I t = Some pn" "resolveTemplate I pkgInfo = Inr template"
    and c: "resolveConflict E I t w = (None, w1)"
    and mk: "mkdirSync (joinCwd E t) w1 = (None, w2)"
    and m: "materialize E fuel (templateDirOf E template) (joinCwd E t) pn w2 = Some (None, w')"
    by blast
  let ?pj = "templateDirOf E template @ [js ''package.json'']"
  from c have "extends isRm w w1" by (rule resolveConflict_extends)
  then have e1: "extends (copiesNot ?pj) w w1"
    by (rule extends_mono) (auto simp: isRm_def copiesNot_def split: event.splits)
  from mk have "trace w2 = trace w1 @ [Mkdir (joinCwd E t)]" by (rule mkdirSync_trace)
  then have e2: "extends (copiesNot ?pj) w1 w2"
    by (simp add: extends_def copiesNot_def)
  from materialize_ok [OF m] obtain w3 raw pkg pkg' where
    e3: "extends (copiesNot ?pj) w2 w3"
    and r: "readFileAt w3 ?pj = Inr raw" "JSON_parse E (utf8Decode E raw) = Inr pkg"
      "setName pkg pn = Inr pkg'"
    and t: "trace w' = trace w3 @ [WriteFile (joinCwd E t @ [js ''package.json''])
                              (utf8Encode E (JSON_stringify E pkg' 2 @ js ''\<newline>''))]"
      "lookup (fs w') (joinCwd E t @ [js ''package.json'']) =
         Some (File (utf8Encode E (JSON_stringify E pkg' 2 @ js ''\<newline>'')))"
    by blast
  from e1 e2 e3 have e: "extends (copiesNot ?pj) w w3"
    by (blast intro: extends_trans)
  have shape: "case pkg of
        JObject props \<Rightarrow>
          \<exists>props'. pkg' = JObject props' \<and>
            map_of props' (js ''name'') = Some (JString pn) \<and>
            (\<forall>k. k \<noteq> js ''name'' \<longrightarrow> map_of props' k = map_of props k)
      | JArray xs \<Rightarrow> pkg' = pkg
      | _ \<Rightarrow> False"
  proof (cases pkg)
    case (JObject props)
    with r(3) setName_object [of props pn pkg'] show ?thesis by simp
  next
    case (JArray xs)
    with r(3) show ?thesis by auto
  qed (use r(3) in simp_all)
  from st e r shape t show ?thesis by blast
qed

text \<open>
  C9 in the example world: the run for \<open>my-app\<close> with the template \<open>vue\<close> returns, and in the
  end \<open>package.json\<close> of the target holds the serialised package, with the name \<open>my-app\<close>
  in place of \<open>template-vue\<close>.
\<close>

theorem init_package_json_witness:
  \<open>(\<exists>w' pkg'. init demoEnv 3 demoInputs demoWorld = Some (Finished, w') \<and>
      lookup (fs w') [js ''home'', js ''my-app'', js ''package.json''] =
        Some (File (utf8Encode demoEnv (JSON_stringify demoEnv pkg' 2 @ js ''\<newline>'')))) \<and>
   map_option (\<lambda>r. lookup (fs (snd r)) [js ''home'', js ''my-app'', js ''package.json''])
     (init demoEnv 3 demoInputs demoWorld) =
     Some (Some (File (bytesOf ''{\<newline>  "name": "my-app",\<newline>  "private": true\<newline>}\<newline>'')))\<close>
proof -
  have "map_option fst (init demoEnv 3 demoInputs demoWorld) = Some Finished"
    by (simp add: run_eval)
  then obtain w' where run: "init demoEnv 3 demoInputs demoWorld = Some (Finished, w')"
    by auto
  have t: "resolveTargetDir demoInputs = Some (js ''my-app'')"
    by (simp add: run_eval)
  from init_package_json [OF run] t obtain pkg' where
    "lookup (fs w') (joinCwd demoEnv (js ''my-app'') @ [js ''package.json'']) =
       Some (File (utf8Encode demoEnv (JSON_stringify demoEnv pkg' 2 @ js ''\<newline>'')))"
    by auto
  then have "lookup (fs w') [js ''home'', js ''my-app'', js ''package.json''] =
       Some (File (utf8Encode demoEnv (JSON_stringify demoEnv pkg' 2 @ js ''\<newline>'')))"
    by (simp add: demoEnv_def)
  with run have 1: "\<exists>w' pkg'. init demoEnv 3 demoInputs demoWorld = Some (Finished, w') \<and>
      lookup (fs w') [js ''home'', js ''my-app'', js ''package.json''] =
        Some (File (utf8Encode demoEnv (JSON_stringify demoEnv pkg' 2 @ js ''\<newline>'')))"
    by blast
  have 2: \<open>map_option (\<lambda>r. lookup (fs (snd r)) [js ''home'', js ''my-app'', js ''package.json''])
     (init demoEnv 3 demoInputs demoWorld) =
     Some (Some (File (bytesOf ''{\<newline>  "name": "my-app",\<newline>  "private": true\<newline>}\<newline>'')))\<close>
    by (simp add: run_eval)
  from 1 2 show ?thesis by (rule conjI)
qed

end
